theory Spec2Isabelle
  imports Main "HOL-Library.Multiset"
begin

text \<open>
  A shallow embedding of the delta executor \<^verbatim>\<open>execute_qlik_delta.js\<close> and of the monthly
  workflow script that drives it. Each function of the source is a HOL function of the same
  name. What lies outside the repository (the database behind the Sequelize connection, the
  file system, the clock, the commands the script starts) is a parameter: a record of
  functions on a state of any type, so that every theorem holds for every behaviour of
  these collaborators. An \<^verbatim>\<open>await\<close> that may throw returns a sum, with \<open>Inl\<close> for the
  error thrown. The order in which concurrent operations complete is a parameter as well, a
  schedule, and the theorems hold for every schedule.
\<close>

section \<open>Data model of \<^verbatim>\<open>execute_qlik_delta.js\<close>\<close>

text \<open>
  A row of \<^verbatim>\<open>qlik_invoice_view_delta\<close> as \<^verbatim>\<open>fetchDeltaQueries\<close> selects it:
  \<^verbatim>\<open>SELECT invoice_line_id, mdm_invoice_id, mdm_sql ... WHERE mdm_sql IS NOT NULL AND mdm_sql != ''\<close>.
  The column \<^verbatim>\<open>mdm_invoice_id\<close> may be null.
\<close>

record queryData =
  invoice_line_id :: string
  mdm_invoice_id :: "string option"
  mdm_sql :: string

text \<open>
  The object \<^verbatim>\<open>executeSingleQuery\<close> returns. On success it is
  \<^verbatim>\<open>{invoice_line_id, success: true, error: null}\<close> (no \<^verbatim>\<open>mdm_sql\<close> property), on failure
  \<^verbatim>\<open>{invoice_line_id, success: false, error: error.message, mdm_sql}\<close>.
\<close>

record result =
  res_invoice_line_id :: string
  success :: bool
  error :: "string option"
  res_mdm_sql :: "string option"

text \<open>A thrown JavaScript \<^verbatim>\<open>Error\<close>; the code reads only its \<^verbatim>\<open>message\<close>.\<close>

datatype jsError = Error (message: string)

text \<open>JavaScript values, where a claim depends on which kind of value a function returns.\<close>

datatype jsValue = Undefined | Boolean bool | Number int

text \<open>
  The history of one process, in program order: the calls made on the store connection, the
  console lines the claims speak about, the file written, and two marks \<open>Started\<close> and
  \<open>Settled\<close> set where the iteratee of \<^verbatim>\<open>async.eachOfLimit\<close> is invoked and where the
  \<^verbatim>\<open>.then\<close> callback of \<^verbatim>\<open>executeSingleQuery\<close> runs. Console lines that only decorate
  (banners, rulers, the listing of each failed query) are left out.
\<close>

datatype event =
    ConnectDB
  | Authenticate
  | SelectDelta
  | SelectToRemove
  | UpdateDeletedAt string
  | LogNoRowsToDelete
  | LogMarkedDeleted nat
  | LogSafeDeleteDisabled
  | LogNoQueries
  | LogTotalQueries nat nat
  | Started nat queryData
  | Settled nat result
  | LogProgress nat nat nat nat
  | LogUnexpected nat string
  | LogAllProcessed nat nat
  | LogSummary nat int nat
  | WriteFileSync string "result list"
  | Close
  | LogError string
  | ProcessExit nat

text \<open>
  The collaborators outside the repository: the Sequelize connection made by
  \<^verbatim>\<open>connectDB()\<close>, \<^verbatim>\<open>fs.writeFileSync\<close> and the clock. \<open>'w\<close> is the state of everything
  behind them. Every call returns the new state and either its value or the error it throws.
  There is one field for each statement text the program sends through
  \<^verbatim>\<open>sequelize.query\<close>; \<open>query_sql\<close> runs the text of an \<^verbatim>\<open>mdm_sql\<close> column.
  \<open>query_update\<close> is the \<^verbatim>\<open>UPDATE\<close> and receives the rows whose ids are spliced into
  its \<^verbatim>\<open>WHERE mdm_invoice_id IN (...)\<close>.
\<close>

record 'w store =
  authenticate :: "'w \<Rightarrow> jsError option \<times> 'w"
  query_delta :: "'w \<Rightarrow> (jsError + queryData list) \<times> 'w"
  query_to_remove :: "'w \<Rightarrow> (jsError + string option list) \<times> 'w"
  query_update :: "string option list \<Rightarrow> 'w \<Rightarrow> jsError option \<times> 'w"
  query_sql :: "string \<Rightarrow> 'w \<Rightarrow> jsError option \<times> 'w"
  close :: "'w \<Rightarrow> jsError option \<times> 'w"
  writeFileSync :: "string \<Rightarrow> result list \<Rightarrow> 'w \<Rightarrow> jsError option \<times> 'w"
  toISOString :: "'w \<Rightarrow> string"

text \<open>
  An instance of \<^verbatim>\<open>class QlikDeltaExecutor\<close>: its three fields, and the history so far.
\<close>

record 'w QlikDeltaExecutor =
  sequelize :: 'w
  failedQueries :: "result list"
  safeDelete :: bool
  trace :: "event list"

definition emit :: "event \<Rightarrow> 'w QlikDeltaExecutor \<Rightarrow> 'w QlikDeltaExecutor" where
  "emit e x = x\<lparr>trace := trace x @ [e]\<rparr>"

text \<open>
  \<^verbatim>\<open>const CONCURRENCY_LIMIT = 500;\<close> The file also holds an earlier copy of the class, with
  the limit 200 and without the safe-delete pass; the first copy is the one embedded here.
\<close>

definition CONCURRENCY_LIMIT :: nat where
  "CONCURRENCY_LIMIT = 500"

text \<open>
  \<^verbatim>\<open>constructor(options = {})\<close>: \<^verbatim>\<open>options.safeDelete\<close> is used when it is a boolean, and is
  \<^verbatim>\<open>true\<close> otherwise. The argument \<open>w\<close> is the world \<^verbatim>\<open>connectDB()\<close> connects to.
\<close>

definition constructor :: "jsValue \<Rightarrow> 'w \<Rightarrow> 'w QlikDeltaExecutor" where
  "constructor options_safeDelete w =
     \<lparr>sequelize = w,
      failedQueries = [],
      safeDelete = (case options_safeDelete of Boolean b \<Rightarrow> b | _ \<Rightarrow> True),
      trace = [ConnectDB]\<rparr>"

subsection \<open>\<^verbatim>\<open>executeSingleQuery\<close>\<close>

text \<open>
  The \<^verbatim>\<open>async\<close> function returns a promise: \<open>Inr\<close> is the value it fulfils with, \<open>Inl\<close>
  the error it would reject with. The \<^verbatim>\<open>try\<close> block awaits \<^verbatim>\<open>this.sequelize.query(mdm_sql)\<close>
  and the \<^verbatim>\<open>catch\<close> block returns the failed result.
\<close>

definition executeSingleQuery ::
  "'w store \<Rightarrow> queryData \<Rightarrow> 'w QlikDeltaExecutor \<Rightarrow> (jsError + result) \<times> 'w QlikDeltaExecutor" where
  "executeSingleQuery S queryData x =
     (case query_sql S (mdm_sql queryData) (sequelize x) of
        (None, w) \<Rightarrow>
          (Inr \<lparr>res_invoice_line_id = invoice_line_id queryData,
                success = True, error = None, res_mdm_sql = None\<rparr>,
           x\<lparr>sequelize := w\<rparr>)
      | (Some err, w) \<Rightarrow>
          (Inr \<lparr>res_invoice_line_id = invoice_line_id queryData,
                success = False, error = Some (message err),
                res_mdm_sql = Some (mdm_sql queryData)\<rparr>,
           x\<lparr>sequelize := w\<rparr>))"

subsection \<open>\<^verbatim>\<open>async.eachOfLimit\<close>\<close>

text \<open>
  Modelled from the spec: the order of completions, of which the spec (4.3) says "no ordering
  guarantee between completions". A schedule decides which running operation settles next:
  its \<open>k\<close>-th number picks, modulo the number of running operations, the operation of the
  \<open>k\<close>-th completion; an exhausted schedule picks the oldest one.
\<close>

fun pick :: "nat list \<Rightarrow> nat \<Rightarrow> nat" where
  "pick [] n = 0"
| "pick (k # ks) n = k mod n"

text \<open>
  Modelled from the spec: \<^verbatim>\<open>eachOfLimit\<close> of the npm package \<^verbatim>\<open>async\<close>, which the
  repository calls and does not contain. The spec (4.3): "maintain a pool of exactly
  concurrencyLimit outstanding operation attempts at all times; as each attempt completes,
  immediately admit the next queued operation until the queue is exhausted, then wait for
  all outstanding attempts to drain", and "an unexpected infrastructure-level error fails
  the whole call". \<open>queue\<close> holds the elements not yet admitted, with their index,
  \<open>running\<close> the admitted ones whose callback has not been called. \<open>start\<close> is the
  synchronous part of the iteratee, \<open>settle\<close> the part that runs when the operation
  completes; \<open>settle\<close> returns the error the iteratee passes to its callback.
\<close>

function eachOfLimit_loop ::
  "nat \<Rightarrow> ('a \<Rightarrow> nat \<Rightarrow> 's \<Rightarrow> 's) \<Rightarrow> ('a \<Rightarrow> nat \<Rightarrow> 's \<Rightarrow> jsError option \<times> 's) \<Rightarrow>
   nat list \<Rightarrow> (nat \<times> 'a) list \<Rightarrow> (nat \<times> 'a) list \<Rightarrow> 's \<Rightarrow> jsError option \<times> 's" where
  "eachOfLimit_loop limit start settle sched queue running s =
     (if length running < limit \<and> queue \<noteq> [] then
        eachOfLimit_loop limit start settle sched (tl queue) (running @ [hd queue])
          (start (snd (hd queue)) (fst (hd queue)) s)
      else if running = [] then (None, s)
      else
        (case settle (snd (running ! pick sched (length running)))
                     (fst (running ! pick sched (length running))) s of
           (Some err, s') \<Rightarrow> (Some err, s')
         | (None, s') \<Rightarrow>
             eachOfLimit_loop limit start settle (tl sched) queue
               (take (pick sched (length running)) running @
                drop (Suc (pick sched (length running))) running) s'))"
  by pat_completeness auto
termination
proof (relation "measure (\<lambda>(limit, start, settle, sched, queue, running, s).
                    2 * length queue + length running)")
  show "wf (measure (\<lambda>(limit :: nat, start :: 'a \<Rightarrow> nat \<Rightarrow> 's \<Rightarrow> 's,
                       settle :: 'a \<Rightarrow> nat \<Rightarrow> 's \<Rightarrow> jsError option \<times> 's, sched :: nat list,
                       queue :: (nat \<times> 'a) list, running :: (nat \<times> 'a) list, s :: 's).
                    2 * length queue + length running))"
    by simp
next
  fix limit :: nat and start :: "'a \<Rightarrow> nat \<Rightarrow> 's \<Rightarrow> 's"
    and settle :: "'a \<Rightarrow> nat \<Rightarrow> 's \<Rightarrow> jsError option \<times> 's" and sched :: "nat list"
    and queue running :: "(nat \<times> 'a) list" and s :: 's
  assume "length running < limit \<and> queue \<noteq> []"
  then show "((limit, start, settle, sched, tl queue, running @ [hd queue],
               start (snd (hd queue)) (fst (hd queue)) s),
              (limit, start, settle, sched, queue, running, s))
             \<in> measure (\<lambda>(limit, start, settle, sched, queue, running, s).
                    2 * length queue + length running)"
    by (cases queue) auto
next
  fix limit :: nat and start :: "'a \<Rightarrow> nat \<Rightarrow> 's \<Rightarrow> 's"
    and settle :: "'a \<Rightarrow> nat \<Rightarrow> 's \<Rightarrow> jsError option \<times> 's" and sched :: "nat list"
    and queue running :: "(nat \<times> 'a) list" and s :: 's
    and x :: "jsError option \<times> 's" and x1 :: "jsError option" and x2 :: 's
  assume "running \<noteq> []"
  then have "pick sched (length running) < length running"
    by (cases sched) auto
  then show "((limit, start, settle, tl sched, queue,
               take (pick sched (length running)) running @
               drop (Suc (pick sched (length running))) running, x2),
              (limit, start, settle, sched, queue, running, s))
             \<in> measure (\<lambda>(limit, start, settle, sched, queue, running, s).
                    2 * length queue + length running)"
    by auto
qed

declare eachOfLimit_loop.simps [simp del]

text \<open>
  Modelled from the spec: the call of \<^verbatim>\<open>eachOfLimit\<close> itself. The elements are taken in
  the order of the collection, each with its index. For a limit of 0 the spec says nothing;
  the library refuses it with a \<^verbatim>\<open>RangeError\<close>, and no element is attempted.
\<close>

definition eachOfLimit ::
  "'a list \<Rightarrow> nat \<Rightarrow> ('a \<Rightarrow> nat \<Rightarrow> 's \<Rightarrow> 's) \<Rightarrow> ('a \<Rightarrow> nat \<Rightarrow> 's \<Rightarrow> jsError option \<times> 's) \<Rightarrow>
   nat list \<Rightarrow> 's \<Rightarrow> jsError option \<times> 's" where
  "eachOfLimit coll limit start settle sched s =
     (if limit = 0 then (Some (Error ''concurrency limit cannot be less than 1''), s)
      else eachOfLimit_loop limit start settle sched (enumerate 0 coll) [] s)"

subsection \<open>\<^verbatim>\<open>executeAllQueries\<close>\<close>

text \<open>
  The iteratee \<^verbatim>\<open>(queryData, index, callback) => { this.executeSingleQuery(queryData).then(...).catch(...) }\<close>.
  Its state is the instance together with the two counters \<^verbatim>\<open>processedCount\<close> and
  \<^verbatim>\<open>successCount\<close> the callbacks close over. The call of \<^verbatim>\<open>executeSingleQuery\<close> suspends
  at \<^verbatim>\<open>await this.sequelize.query(mdm_sql)\<close>, the only point where operations interleave:
  \<open>iteratee_start\<close> is what happens before that point; the effect of the statement on the
  store and the continuation after the \<^verbatim>\<open>await\<close> are one step, \<open>iteratee_settle\<close>, taken
  when the schedule picks the operation.
\<close>

definition iteratee_start ::
  "queryData \<Rightarrow> nat \<Rightarrow> 'w QlikDeltaExecutor \<times> nat \<times> nat \<Rightarrow> 'w QlikDeltaExecutor \<times> nat \<times> nat" where
  "iteratee_start queryData index =
     (\<lambda>(x, processedCount, successCount).
        (emit (Started index queryData) x, processedCount, successCount))"

definition iteratee_settle ::
  "'w store \<Rightarrow> nat \<Rightarrow> queryData \<Rightarrow> nat \<Rightarrow> 'w QlikDeltaExecutor \<times> nat \<times> nat \<Rightarrow>
   jsError option \<times> 'w QlikDeltaExecutor \<times> nat \<times> nat" where
  "iteratee_settle S totalQueries queryData index =
     (\<lambda>(x, processedCount, successCount).
        case executeSingleQuery S queryData x of
          (Inr result, x1) \<Rightarrow>
            (let x2 = emit (Settled index result) x1;
                 x3 = (if \<not> success result
                       then x2\<lparr>failedQueries := failedQueries x2 @ [result]\<rparr> else x2);
                 successCount' = (if \<not> success result then successCount else successCount + 1);
                 processedCount' = processedCount + 1;
                 x4 = (if processedCount' mod 100 = 0 \<or> processedCount' = totalQueries
                       then emit (LogProgress processedCount' totalQueries successCount'
                                    (length (failedQueries x3))) x3
                       else x3)
             in (None, x4, processedCount', successCount'))
        | (Inl err, x1) \<Rightarrow>
            (Some err, emit (LogUnexpected index (message err)) x1,
             processedCount, successCount))"

text \<open>
  \<open>Inr ()\<close> is \<^verbatim>\<open>resolve()\<close>, \<open>Inl error\<close> is \<^verbatim>\<open>reject(error)\<close>.
\<close>

definition executeAllQueries ::
  "'w store \<Rightarrow> nat list \<Rightarrow> queryData list \<Rightarrow> 'w QlikDeltaExecutor \<Rightarrow>
   (jsError + unit) \<times> 'w QlikDeltaExecutor" where
  "executeAllQueries S sched allQueries x =
     (let totalQueries = length allQueries in
      case eachOfLimit allQueries CONCURRENCY_LIMIT iteratee_start
             (iteratee_settle S totalQueries) sched (x, 0, 0) of
        (Some err, x', processedCount, successCount) \<Rightarrow> (Inl err, x')
      | (None, x', processedCount, successCount) \<Rightarrow>
          (Inr (), emit (LogAllProcessed successCount (length (failedQueries x'))) x'))"

text \<open>Reading the two marks off a history.\<close>

fun started :: "event list \<Rightarrow> (nat \<times> queryData) list" where
  "started [] = []"
| "started (Started i q # es) = (i, q) # started es"
| "started (e # es) = started es"

fun settled :: "event list \<Rightarrow> (nat \<times> result) list" where
  "settled [] = []"
| "settled (Settled i r # es) = (i, r) # settled es"
| "settled (e # es) = settled es"

text \<open>The number of operations in flight at the end of a history.\<close>

definition in_flight :: "event list \<Rightarrow> int" where
  "in_flight tr = int (length (started tr)) - int (length (settled tr))"

subsection \<open>\<^verbatim>\<open>fetchDeltaQueries\<close> and \<^verbatim>\<open>safeDeleteChangedInvoiceRows\<close>\<close>

definition fetchDeltaQueries ::
  "'w store \<Rightarrow> 'w QlikDeltaExecutor \<Rightarrow> (jsError + queryData list) \<times> 'w QlikDeltaExecutor" where
  "fetchDeltaQueries S x =
     (case query_delta S (sequelize (emit SelectDelta x)) of
        (Inr results, w) \<Rightarrow> (Inr results, (emit SelectDelta x)\<lparr>sequelize := w\<rparr>)
      | (Inl err, w) \<Rightarrow>
          (Inl err, emit (LogError (message err)) ((emit SelectDelta x)\<lparr>sequelize := w\<rparr>)))"

text \<open>\<^verbatim>\<open>Array.prototype.join\<close> on strings.\<close>

fun join :: "string \<Rightarrow> string list \<Rightarrow> string" where
  "join sep [] = []"
| "join sep [a] = a"
| "join sep (a # b # bs) = a @ sep @ join sep (b # bs)"

text \<open>
  \<^verbatim>\<open>results.map(id => `'${id.mdm_invoice_id}'`).join(',')\<close>; a null column is spliced
  into the template as \<^verbatim>\<open>null\<close>.
\<close>

definition in_list :: "string option list \<Rightarrow> string" where
  "in_list results =
     join '','' (map (\<lambda>id. [CHR 0x27] @ (case id of None \<Rightarrow> ''null'' | Some v \<Rightarrow> v) @ [CHR 0x27])
                   results)"

text \<open>
  \<^verbatim>\<open>safeDeleteChangedInvoiceRows\<close>: one \<^verbatim>\<open>SELECT mdm_invoice_id FROM mdm_invoice_line_to_remove_qlik\<close>;
  with no row it returns \<^verbatim>\<open>true\<close>; otherwise one
  \<^verbatim>\<open>UPDATE mdm_invoice_qlik SET deleted_at = NOW() WHERE mdm_invoice_id IN (...)\<close> and
  \<^verbatim>\<open>return true\<close>. The \<^verbatim>\<open>catch\<close> block logs and throws the error again.
\<close>

definition safeDeleteChangedInvoiceRows ::
  "'w store \<Rightarrow> 'w QlikDeltaExecutor \<Rightarrow> (jsError + jsValue) \<times> 'w QlikDeltaExecutor" where
  "safeDeleteChangedInvoiceRows S x =
     (case query_to_remove S (sequelize (emit SelectToRemove x)) of
        (Inl err, w) \<Rightarrow>
          (Inl err, emit (LogError (message err)) ((emit SelectToRemove x)\<lparr>sequelize := w\<rparr>))
      | (Inr results, w) \<Rightarrow>
          (let x1 = (emit SelectToRemove x)\<lparr>sequelize := w\<rparr> in
           if length results = 0 then (Inr (Boolean True), emit LogNoRowsToDelete x1)
           else
             (let x2 = emit (UpdateDeletedAt (in_list results)) x1 in
              case query_update S results (sequelize x2) of
                (Some err, w') \<Rightarrow> (Inl err, emit (LogError (message err)) (x2\<lparr>sequelize := w'\<rparr>))
              | (None, w') \<Rightarrow>
                  (Inr (Boolean True),
                   emit (LogMarkedDeleted (length results)) (x2\<lparr>sequelize := w'\<rparr>)))))"

subsection \<open>\<^verbatim>\<open>execute\<close>\<close>

text \<open>
  How a call of \<^verbatim>\<open>execute()\<close> ends: its promise is fulfilled, its promise is rejected,
  or \<^verbatim>\<open>process.exit(code)\<close> ends the process before the function returns.
\<close>

datatype outcome = Resolved | Rejected jsError | Exited nat

text \<open>
  \<^verbatim>\<open>`failed_queries_${new Date().toISOString().split('T')[0]}.json`\<close>
\<close>

definition failuresFile :: "string \<Rightarrow> string" where
  "failuresFile stamp = ''failed_queries_'' @ takeWhile (\<lambda>c. c \<noteq> CHR ''T'') stamp @ ''.json''"

text \<open>
  The report after \<^verbatim>\<open>executeAllQueries\<close>: the summary lines, then, when
  \<^verbatim>\<open>this.failedQueries.length > 0\<close>, the file with \<^verbatim>\<open>JSON.stringify(this.failedQueries, null, 2)\<close>,
  kept here as the list that is serialised.
\<close>

definition report ::
  "'w store \<Rightarrow> queryData list \<Rightarrow> 'w QlikDeltaExecutor \<Rightarrow> (jsError + unit) \<times> 'w QlikDeltaExecutor" where
  "report S allQueries x =
     (let successCount = int (length allQueries) - int (length (failedQueries x));
          x1 = emit (LogSummary (length allQueries) successCount (length (failedQueries x))) x
      in if length (failedQueries x1) > 0 then
           (let file = failuresFile (toISOString S (sequelize x1));
                x2 = emit (WriteFileSync file (failedQueries x1)) x1
            in case writeFileSync S file (failedQueries x2) (sequelize x2) of
                 (Some err, w) \<Rightarrow> (Inl err, x2\<lparr>sequelize := w\<rparr>)
               | (None, w) \<Rightarrow> (Inr (), x2\<lparr>sequelize := w\<rparr>))
         else (Inr (), x1))"

text \<open>
  The \<^verbatim>\<open>try\<close> block of \<^verbatim>\<open>execute\<close>. \<open>Inl\<close> is a throw, \<open>Inr ()\<close> leaving the block, by
  the early \<^verbatim>\<open>return\<close> or at its end.
\<close>

definition execute_try ::
  "'w store \<Rightarrow> nat list \<Rightarrow> 'w QlikDeltaExecutor \<Rightarrow> (jsError + unit) \<times> 'w QlikDeltaExecutor" where
  "execute_try S sched x =
     (case authenticate S (sequelize (emit Authenticate x)) of
        (Some err, w) \<Rightarrow> (Inl err, (emit Authenticate x)\<lparr>sequelize := w\<rparr>)
      | (None, w) \<Rightarrow>
          (case fetchDeltaQueries S ((emit Authenticate x)\<lparr>sequelize := w\<rparr>) of
             (Inl err, x1) \<Rightarrow> (Inl err, x1)
           | (Inr allQueries, x1) \<Rightarrow>
               (case (if safeDelete x1 then safeDeleteChangedInvoiceRows S x1
                      else (Inr Undefined, emit LogSafeDeleteDisabled x1)) of
                  (Inl err, x2) \<Rightarrow> (Inl err, x2)
                | (Inr v, x2) \<Rightarrow>
                    if length allQueries = 0 then (Inr (), emit LogNoQueries x2)
                    else
                      (let x3 = emit (LogTotalQueries (length allQueries)
                                  (length (filter (\<lambda>query. mdm_invoice_id query = None \<or>
                                                            mdm_invoice_id query = Some [])
                                             allQueries))) x2
                       in case executeAllQueries S sched allQueries x3 of
                            (Inl err, x4) \<Rightarrow> (Inl err, x4)
                          | (Inr u, x4) \<Rightarrow> report S allQueries x4))))"

text \<open>
  \<^verbatim>\<open>try { ... } catch (error) { console.error(...); process.exit(1); } finally { await this.sequelize.close(); }\<close>.
  \<^verbatim>\<open>process.exit\<close> ends the Node.js process synchronously: nothing after it runs, the
  \<^verbatim>\<open>finally\<close> block included. The \<^verbatim>\<open>finally\<close> block runs when the \<^verbatim>\<open>try\<close>
  block is left without a throw; an error thrown by \<^verbatim>\<open>close()\<close> rejects the promise.
\<close>

definition execute ::
  "'w store \<Rightarrow> nat list \<Rightarrow> 'w QlikDeltaExecutor \<Rightarrow> outcome \<times> 'w QlikDeltaExecutor" where
  "execute S sched x =
     (case execute_try S sched x of
        (Inl err, x1) \<Rightarrow> (Exited 1, emit (ProcessExit 1) (emit (LogError (message err)) x1))
      | (Inr u, x1) \<Rightarrow>
          (case close S (sequelize (emit Close x1)) of
             (Some err, w) \<Rightarrow> (Rejected err, (emit Close x1)\<lparr>sequelize := w\<rparr>)
           | (None, w) \<Rightarrow> (Resolved, (emit Close x1)\<lparr>sequelize := w\<rparr>)))"

subsection \<open>The command line of \<^verbatim>\<open>execute_qlik_delta.js\<close>\<close>

text \<open>
  \<^verbatim>\<open>parseInt(string, 10)\<close> of ECMAScript: leading white space is skipped, one sign is read,
  then the longest run of decimal digits; with no digit the result is \<^verbatim>\<open>NaN\<close>, here
  \<open>None\<close>. Strings are taken as ASCII. The value is kept as an exact integer: the rounding of
  large values to a double keeps a nonzero value nonzero, and \<^verbatim>\<open>-0\<close> is falsy like \<open>0\<close>.
\<close>

definition isWhiteSpace :: "char \<Rightarrow> bool" where
  "isWhiteSpace c = (c \<in> set [CHR 0x09, CHR 0x0A, CHR 0x0B, CHR 0x0C, CHR 0x0D, CHR 0x20])"

definition isDigit :: "char \<Rightarrow> bool" where
  "isDigit c = (48 \<le> (of_char c :: nat) \<and> (of_char c :: nat) \<le> 57)"

definition digitsValue :: "string \<Rightarrow> int" where
  "digitsValue Z = foldl (\<lambda>a c. 10 * a + (int (of_char c) - 48)) 0 Z"

definition parseInt10 :: "string \<Rightarrow> int option" where
  "parseInt10 inputString =
     (let S = dropWhile isWhiteSpace inputString;
          sign = (case S of c # r \<Rightarrow> if c = CHR ''-'' then - 1 else 1 | [] \<Rightarrow> (1 :: int));
          S' = (case S of c # r \<Rightarrow> if c = CHR ''+'' \<or> c = CHR ''-'' then r else S | [] \<Rightarrow> S);
          Z = takeWhile isDigit S'
      in if Z = [] then None else Some (sign * digitsValue Z))"

text \<open>\<^verbatim>\<open>process.argv[i]\<close>: \<^verbatim>\<open>undefined\<close> past the end of the array.\<close>

definition argv_at :: "string list \<Rightarrow> nat \<Rightarrow> string option" where
  "argv_at argv i = (if i < length argv then Some (argv ! i) else None)"

text \<open>\<^verbatim>\<open>parseInt(process.argv[i] ?? dflt, 10) || 0\<close>\<close>

definition flag :: "string list \<Rightarrow> nat \<Rightarrow> string \<Rightarrow> int" where
  "flag argv i dflt =
     (case parseInt10 (case argv_at argv i of None \<Rightarrow> dflt | Some a \<Rightarrow> a) of
        None \<Rightarrow> 0
      | Some n \<Rightarrow> if n = 0 then 0 else n)"

definition modeFlag :: "string list \<Rightarrow> int" where
  "modeFlag argv = flag argv 2 ''0''"

definition safeDeleteFlag :: "string list \<Rightarrow> int" where
  "safeDeleteFlag argv = flag argv 3 ''1''"

text \<open>
  \<^verbatim>\<open>const executor = new QlikDeltaExecutor({ safeDelete: Boolean(safeDeleteFlag) })\<close>
\<close>

definition cli_executor :: "string list \<Rightarrow> 'w \<Rightarrow> 'w QlikDeltaExecutor" where
  "cli_executor argv w = constructor (Boolean (safeDeleteFlag argv \<noteq> 0)) w"

section \<open>The monthly workflow script\<close>

text \<open>
  The Bash script that runs, for each month, \<^verbatim>\<open>xl_2_csv.js\<close> with \<^verbatim>\<open>read-file-2-db.js\<close>
  and then \<^verbatim>\<open>execute_qlik_delta.js\<close>. What it starts and tests is outside the script, a
  machine with a state of any type:
  \<^item> \<open>bash_c\<close> is \<^verbatim>\<open>bash -c "$cmd" >"$tmpout" 2>&1\<close> with the temporary file around it: whether
    the exit status is 0, and the output that \<^verbatim>\<open>cat "$tmpout"\<close> then reads;
  \<^item> \<open>is_file\<close> is \<^verbatim>\<open>[ -f path ]\<close>;
  \<^item> \<open>mkdir_p\<close> is \<^verbatim>\<open>mkdir -p path\<close>: whether it succeeds;
  \<^item> \<open>append_to\<close> is one write at the end of a file, by a command redirected with
    \<^verbatim>\<open>>> file\<close> or by \<^verbatim>\<open>tee -a file\<close>: whether it succeeds.

  \<^verbatim>\<open>echo\<close> on the standard output is taken to succeed. Of \<^verbatim>\<open>set -euo pipefail\<close>, \<^verbatim>\<open>-u\<close>
  changes nothing: every variable the script reads has been set.
\<close>

record 'v shell =
  bash_c :: "string \<Rightarrow> 'v \<Rightarrow> (bool \<times> string) \<times> 'v"
  is_file :: "string \<Rightarrow> 'v \<Rightarrow> bool"
  mkdir_p :: "string \<Rightarrow> 'v \<Rightarrow> bool \<times> 'v"
  append_to :: "string \<Rightarrow> 'v \<Rightarrow> bool \<times> 'v"

text \<open>
  The pieces the script appends to a failure log: the two marker lines around the output of
  a failed attempt, and the line \<^verbatim>\<open>tee -a\<close> adds for a missing invoice file.
\<close>

datatype log_entry =
    AttemptOutputBegin nat
  | AttemptOutput string
  | AttemptOutputEnd nat
  | InvoiceFileMissing string

text \<open>The lines the script echoes.\<close>

datatype echo =
    Processing string
  | InvoiceMissing string
  | Skipping string
  | Attempt nat string
  | CommandSucceeded nat
  | CommandFailed nat
  | Part1Succeeded string
  | Part1Failed string
  | Part2Succeeded string
  | Part2Failed string
  | Completed string
  | AllMonthsProcessed

text \<open>
  The state of a run of the script: the machine, what the failure logs hold, and what has
  been echoed.
\<close>

record 'v script =
  sys :: 'v
  logs :: "string \<Rightarrow> log_entry list"
  stdout :: "echo list"

definition say :: "echo \<Rightarrow> 'v script \<Rightarrow> 'v script" where
  "say e st = st\<lparr>stdout := stdout st @ [e]\<rparr>"

text \<open>
  One write at the end of a failure log. The machine decides whether it succeeds; the entry
  is in the log only when it does. The result is the exit status of the writing command, as
  a truth value, with the new state.
\<close>

definition append_log ::
  "'v shell \<Rightarrow> string \<Rightarrow> log_entry \<Rightarrow> 'v script \<Rightarrow> bool \<times> 'v script" where
  "append_log sh file entry st =
     (case append_to sh file (sys st) of
        (True, v) \<Rightarrow> (True, st\<lparr>sys := v, logs := (logs st)(file := logs st file @ [entry])\<rparr>)
      | (False, v) \<Rightarrow> (False, st\<lparr>sys := v\<rparr>))"

definition YEAR :: string where
  "YEAR = ''2024''"

definition MONTHS :: "string list" where
  "MONTHS = [''09'', ''08'', ''07'', ''06'', ''05'', ''04'', ''03'', ''02'', ''01'']"

definition max_attempts :: nat where
  "max_attempts = 2"

text \<open>
  The \<^verbatim>\<open>while [ $attempt -le $max_attempts ]\<close> loop of \<^verbatim>\<open>run_cmd_with_retry\<close>; the result
  is the function's return status. The script runs under \<^verbatim>\<open>set -euo pipefail\<close>, but it
  calls this function only as the condition of an \<^verbatim>\<open>if\<close>, where Bash ignores \<^verbatim>\<open>-e\<close> for
  every command of the function body: an append to the failure log that fails is lost, and
  the function goes on. (\<^verbatim>\<open>cat "$tmpout" >> "$failfile" || true\<close> says as much.)
\<close>

function retry_loop ::
  "'v shell \<Rightarrow> string \<Rightarrow> string \<Rightarrow> nat \<Rightarrow> 'v script \<Rightarrow> nat \<times> 'v script" where
  "retry_loop sh cmd failfile attempt st =
     (if attempt \<le> max_attempts then
        (case bash_c sh cmd (sys st) of
           ((True, out), v) \<Rightarrow>
             (0, say (CommandSucceeded attempt) ((say (Attempt attempt cmd) st)\<lparr>sys := v\<rparr>))
         | ((False, out), v) \<Rightarrow>
             retry_loop sh cmd failfile (attempt + 1)
               (snd (append_log sh failfile (AttemptOutputEnd attempt)
                  (snd (append_log sh failfile (AttemptOutput out)
                     (snd (append_log sh failfile (AttemptOutputBegin attempt)
                        (say (CommandFailed attempt)
                           ((say (Attempt attempt cmd) st)\<lparr>sys := v\<rparr>)))))))))
      else (1, st))"
  by pat_completeness auto
termination
  by (relation "measure (\<lambda>(sh, cmd, failfile, attempt, st). max_attempts + 1 - attempt)") auto

declare retry_loop.simps [simp del]

definition run_cmd_with_retry ::
  "'v shell \<Rightarrow> string \<Rightarrow> string \<Rightarrow> 'v script \<Rightarrow> nat \<times> 'v script" where
  "run_cmd_with_retry sh cmd failfile st = retry_loop sh cmd failfile 1 st"

definition FAILED_DIR :: "string \<Rightarrow> string" where
  "FAILED_DIR WORKDIR = WORKDIR @ ''/failed_months''"

definition INVOICE :: "string \<Rightarrow> string \<Rightarrow> string" where
  "INVOICE WORKDIR MM =
     WORKDIR @ ''/invoice_list_by_month/invoice_'' @ YEAR @ ''_'' @ MM @ ''.xlsx''"

definition FAILFILE :: "string \<Rightarrow> string \<Rightarrow> string" where
  "FAILFILE WORKDIR MM = FAILED_DIR WORKDIR @ ''/failed_'' @ YEAR @ ''_'' @ MM @ ''.log''"

definition PART1 :: "string \<Rightarrow> string \<Rightarrow> string" where
  \<open>PART1 WORKDIR MM =
     ''node "'' @ WORKDIR @ ''/xl_2_csv.js" "'' @ INVOICE WORKDIR MM @
     ''" && node "'' @ WORKDIR @ ''/read-file-2-db.js" output.csv qlik_invoice_raw''\<close>

definition PART2 :: "string \<Rightarrow> string" where
  \<open>PART2 WORKDIR = ''node "'' @ WORKDIR @ ''/execute_qlik_delta.js"''\<close>

text \<open>
  The body of \<^verbatim>\<open>for MM in "${MONTHS[@]}"\<close>. The result is \<open>None\<close> when the body ends, by
  a \<^verbatim>\<open>continue\<close> or at its last line, and \<open>Some status\<close> when the script exits there:
  under \<^verbatim>\<open>set -e\<close> with \<^verbatim>\<open>pipefail\<close>, the pipeline
  \<^verbatim>\<open>echo "Invoice file missing: $INVOICE" | tee -a "$FAILFILE"\<close> ends the script with the
  status 1 of \<^verbatim>\<open>tee\<close> when \<^verbatim>\<open>tee\<close> cannot write the log; \<^verbatim>\<open>tee\<close> has copied the line to
  the standard output all the same.
\<close>

definition month_body ::
  "'v shell \<Rightarrow> string \<Rightarrow> string \<Rightarrow> 'v script \<Rightarrow> nat option \<times> 'v script" where
  "month_body sh WORKDIR MM st =
     (let st1 = say (Processing MM) st in
      if \<not> is_file sh (INVOICE WORKDIR MM) (sys st1) then
        (case append_log sh (FAILFILE WORKDIR MM) (InvoiceFileMissing (INVOICE WORKDIR MM))
                (say (InvoiceMissing (INVOICE WORKDIR MM)) st1) of
           (False, st2) \<Rightarrow> (Some 1, st2)
         | (True, st2) \<Rightarrow> (None, say (Skipping MM) st2))
      else
        (case run_cmd_with_retry sh (PART1 WORKDIR MM) (FAILFILE WORKDIR MM) st1 of
           (Suc n, st2) \<Rightarrow> (None, say (Part1Failed MM) st2)
         | (0, st2) \<Rightarrow>
             (case run_cmd_with_retry sh (PART2 WORKDIR) (FAILFILE WORKDIR MM)
                     (say (Part1Succeeded MM) st2) of
                (Suc n, st3) \<Rightarrow> (None, say (Part2Failed MM) st3)
              | (0, st3) \<Rightarrow> (None, say (Completed MM) (say (Part2Succeeded MM) st3)))))"

text \<open>The loop over the months: it goes on to the next month unless the script has exited.\<close>

fun for_months ::
  "'v shell \<Rightarrow> string \<Rightarrow> string list \<Rightarrow> 'v script \<Rightarrow> nat option \<times> 'v script" where
  "for_months sh WORKDIR [] st = (None, st)"
| "for_months sh WORKDIR (MM # MMs) st =
     (case month_body sh WORKDIR MM st of
        (Some status, st') \<Rightarrow> (Some status, st')
      | (None, st') \<Rightarrow> for_months sh WORKDIR MMs st')"

text \<open>
  The script: \<^verbatim>\<open>mkdir -p "$FAILED_DIR"\<close>, which ends the script under \<^verbatim>\<open>set -e\<close> when it
  fails, the loop, and the last \<^verbatim>\<open>echo\<close>. The result is the exit status of the script.
  \<open>WORKDIR\<close> is the directory of the script.
\<close>

definition workflow :: "'v shell \<Rightarrow> string \<Rightarrow> 'v script \<Rightarrow> nat \<times> 'v script" where
  "workflow sh WORKDIR st =
     (case mkdir_p sh (FAILED_DIR WORKDIR) (sys st) of
        (False, v) \<Rightarrow> (1, st\<lparr>sys := v\<rparr>)
      | (True, v) \<Rightarrow>
          (case for_months sh WORKDIR MONTHS (st\<lparr>sys := v\<rparr>) of
             (Some status, st') \<Rightarrow> (status, st')
           | (None, st') \<Rightarrow> (0, say AllMonthsProcessed st')))"

section \<open>Notions used in the statements\<close>

text \<open>The part of the history that a call added: what \<open>x'\<close> has recorded beyond \<open>x\<close>.\<close>

definition since :: "'w QlikDeltaExecutor \<Rightarrow> 'w QlikDeltaExecutor \<Rightarrow> event list" where
  "since x x' = drop (length (trace x)) (trace x')"

text \<open>
  \<open>r\<close> is one of the two objects \<^verbatim>\<open>executeSingleQuery\<close> builds for the row \<open>q\<close>: the
  success object, or the failure object with a message and the row's own \<^verbatim>\<open>mdm_sql\<close>.
\<close>

definition is_outcome_of :: "queryData \<Rightarrow> result \<Rightarrow> bool" where
  "is_outcome_of q r =
     (res_invoice_line_id r = invoice_line_id q \<and>
      (if success r then error r = None \<and> res_mdm_sql r = None
       else error r \<noteq> None \<and> res_mdm_sql r = Some (mdm_sql q)))"

text \<open>
  The two console lines with which \<^verbatim>\<open>safeDeleteChangedInvoiceRows\<close> ends when it does not
  throw: a history holds one of them exactly when a safe-delete pass has completed.
\<close>

fun is_guard_done :: "event \<Rightarrow> bool" where
  "is_guard_done LogNoRowsToDelete = True"
| "is_guard_done (LogMarkedDeleted n) = True"
| "is_guard_done e = False"

definition guard_done :: "event list \<Rightarrow> bool" where
  "guard_done tr = list_ex is_guard_done tr"

text \<open>The summary lines and the file writes of a history.\<close>

fun summaries :: "event list \<Rightarrow> (nat \<times> int \<times> nat) list" where
  "summaries [] = []"
| "summaries (LogSummary n ok failed # es) = (n, ok, failed) # summaries es"
| "summaries (e # es) = summaries es"

fun writes :: "event list \<Rightarrow> (string \<times> result list) list" where
  "writes [] = []"
| "writes (WriteFileSync file content # es) = (file, content) # writes es"
| "writes (e # es) = writes es"

text \<open>The events that \<^verbatim>\<open>executeAllQueries\<close> records while the pool runs.\<close>

fun is_pool_event :: "event \<Rightarrow> bool" where
  "is_pool_event (Started i q) = True"
| "is_pool_event (Settled i r) = True"
| "is_pool_event (LogProgress a b c d) = True"
| "is_pool_event e = False"

text \<open>
  The invariant of the pool while it runs the iteratee of \<^verbatim>\<open>executeAllQueries\<close> over the
  rows \<open>qs\<close>, started from the instance \<open>x0\<close>: what has been started and what is still
  queued make up the input; every started index has settled or is running; each settled
  result belongs to its row; the counters and \<^verbatim>\<open>failedQueries\<close> agree with the settled
  results; the number in flight is the number running, and never exceeded the limit.
\<close>

definition pool_inv ::
  "queryData list \<Rightarrow> nat \<Rightarrow> 'w QlikDeltaExecutor \<Rightarrow> (nat \<times> queryData) list \<Rightarrow>
   (nat \<times> queryData) list \<Rightarrow> 'w QlikDeltaExecutor \<times> nat \<times> nat \<Rightarrow> bool" where
  "pool_inv qs limit x0 queue running s =
     (case s of (x, processedCount, successCount) \<Rightarrow>
        \<exists>tr. trace x = trace x0 @ tr \<and>
          started tr @ queue = enumerate 0 qs \<and>
          mset (map fst (settled tr)) + mset (map fst running) = mset (map fst (started tr)) \<and>
          set running \<subseteq> set (started tr) \<and>
          (\<forall>(i, r) \<in> set (settled tr). i < length qs \<and> is_outcome_of (qs ! i) r) \<and>
          processedCount = length (settled tr) \<and>
          successCount = length (filter (\<lambda>(i, r). success r) (settled tr)) \<and>
          failedQueries x =
            failedQueries x0 @ map snd (filter (\<lambda>(i, r). \<not> success r) (settled tr)) \<and>
          safeDelete x = safeDelete x0 \<and>
          list_all is_pool_event tr \<and>
          in_flight tr = int (length running) \<and>
          (\<forall>k \<le> length tr. in_flight (take k tr) \<le> int limit))"

text \<open>
  What the workflow script echoed during a call, and the months whose processing it
  announced.
\<close>

definition echoed :: "'v script \<Rightarrow> 'v script \<Rightarrow> echo list" where
  "echoed st st' = drop (length (stdout st)) (stdout st')"

fun processing :: "echo list \<Rightarrow> string list" where
  "processing [] = []"
| "processing (Processing MM # es) = MM # processing es"
| "processing (e # es) = processing es"

text \<open>
  The entries \<open>es\<close> written one after the other at the end of the log \<open>file\<close>, each
  write succeeding or not as the machine decides: an entry is in the log when its write
  succeeded, and is lost when it did not.
\<close>

fun appends :: "'v shell \<Rightarrow> string \<Rightarrow> log_entry list \<Rightarrow> 'v script \<Rightarrow> 'v script" where
  "appends sh file [] st = st"
| "appends sh file (e # es) st =
     (case append_to sh file (sys st) of
        (ok, v) \<Rightarrow>
          appends sh file es
            (st\<lparr>sys := v, logs := (logs st)(file := logs st file @ (if ok then [e] else []))\<rparr>))"

declare appends.simps [simp del]




section \<open>A store to run the model on\<close>

text \<open>
  A small in-memory store on which the definitions above are evaluated at concrete inputs. It
  holds the three tables the program reads or updates. A statement of the delta fails when
  its text begins with \<open>!\<close>; \<^verbatim>\<open>NOW()\<close> is a counter.
\<close>

record mem =
  reachable :: bool
  delta :: "queryData list"
  to_remove :: "string option list"
  invoice_qlik :: "(string \<times> nat option) list"
  now :: nat
  applied :: "string list"
  files :: "(string \<times> result list) list"
  closed :: bool

definition mem_store :: "mem store" where
  "mem_store =
     \<lparr>authenticate = (\<lambda>w. if reachable w then (None, w) else (Some (Error ''ECONNREFUSED''), w)),
      query_delta = (\<lambda>w. (Inr (delta w), w)),
      query_to_remove = (\<lambda>w. (Inr (to_remove w), w)),
      query_update = (\<lambda>results w.
         (None, w\<lparr>invoice_qlik :=
                     map (\<lambda>(id, deleted_at).
                            if Some id \<in> set results then (id, Some (now w)) else (id, deleted_at))
                         (invoice_qlik w),
                   now := now w + 1\<rparr>)),
      query_sql = (\<lambda>sql w.
         if take 1 sql = ''!'' then (Some (Error ''constraint violated''), w)
         else (None, w\<lparr>applied := applied w @ [sql]\<rparr>)),
      close = (\<lambda>w. (None, w\<lparr>closed := True\<rparr>)),
      writeFileSync = (\<lambda>file content w. (None, w\<lparr>files := (file, content) # files w\<rparr>)),
      toISOString = (\<lambda>w. ''2024-09-30T21:15:02.113Z'')\<rparr>"

definition mem0 :: mem where
  "mem0 =
     \<lparr>reachable = True,
      delta = [\<lparr>invoice_line_id = ''L1'', mdm_invoice_id = Some ''A'', mdm_sql = ''insert 1''\<rparr>,
               \<lparr>invoice_line_id = ''L2'', mdm_invoice_id = None, mdm_sql = ''!insert 2''\<rparr>,
               \<lparr>invoice_line_id = ''L3'', mdm_invoice_id = Some ''B'', mdm_sql = ''insert 3''\<rparr>],
      to_remove = [Some ''A''],
      invoice_qlik = [(''A'', None), (''B'', None)],
      now = 7,
      applied = [],
      files = [],
      closed = False\<rparr>"

text \<open>The same store with only the failing row in the delta.\<close>

definition mem1 :: mem where
  "mem1 = mem0\<lparr>delta := [\<lparr>invoice_line_id = ''L2'', mdm_invoice_id = None,
                            mdm_sql = ''!insert 2''\<rparr>]\<rparr>"

text \<open>A store on which the \<open>UPDATE\<close> of the safe-delete pass throws.\<close>

definition update_fails_store :: "mem store" where
  "update_fails_store =
     mem_store\<lparr>query_update := (\<lambda>results w. (Some (Error ''deadlock detected''), w))\<rparr>"


text \<open>
  A machine for the workflow script on which every invoice file exists, every command
  fails, printing \<open>boom\<close>, and every write to a log succeeds; and the same machine with
  logs that cannot be written.
\<close>

definition failing_shell :: "unit shell" where
  "failing_shell =
     \<lparr>bash_c = (\<lambda>cmd v. ((False, ''boom''), v)), is_file = (\<lambda>path v. True),
      mkdir_p = (\<lambda>path v. (True, v)), append_to = (\<lambda>file v. (True, v))\<rparr>"

definition readonly_shell :: "unit shell" where
  "readonly_shell = failing_shell\<lparr>append_to := (\<lambda>file v. (False, v))\<rparr>"

definition script0 :: "unit script" where
  "script0 = \<lparr>sys = (), logs = (\<lambda>file. []), stdout = []\<rparr>"

section \<open>The pool\<close>


lemma pick_less: "n > 0 \<Longrightarrow> pick sched n < n"
  by (cases sched) auto

lemma eachOfLimit_loop_admit:
  "length running < limit \<Longrightarrow> queue \<noteq> [] \<Longrightarrow>
   eachOfLimit_loop limit start settle sched queue running s =
   eachOfLimit_loop limit start settle sched (tl queue) (running @ [hd queue])
     (start (snd (hd queue)) (fst (hd queue)) s)"
  by (subst eachOfLimit_loop.simps) simp

lemma eachOfLimit_loop_drained:
  "\<not> (length running < limit \<and> queue \<noteq> []) \<Longrightarrow> running = [] \<Longrightarrow>
   eachOfLimit_loop limit start settle sched queue running s = (None, s)"
  by (subst eachOfLimit_loop.simps) auto

lemma eachOfLimit_loop_settle:
  "\<not> (length running < limit \<and> queue \<noteq> []) \<Longrightarrow> running \<noteq> [] \<Longrightarrow>
   settle (snd (running ! pick sched (length running)))
          (fst (running ! pick sched (length running))) s = (None, s') \<Longrightarrow>
   eachOfLimit_loop limit start settle sched queue running s =
   eachOfLimit_loop limit start settle (tl sched) queue
     (take (pick sched (length running)) running @
      drop (Suc (pick sched (length running))) running) s'"
  by (subst eachOfLimit_loop.simps) auto

lemma eachOfLimit_loop_error:
  "\<not> (length running < limit \<and> queue \<noteq> []) \<Longrightarrow> running \<noteq> [] \<Longrightarrow>
   settle (snd (running ! pick sched (length running)))
          (fst (running ! pick sched (length running))) s = (Some err, s') \<Longrightarrow>
   eachOfLimit_loop limit start settle sched queue running s = (Some err, s')"
  by (subst eachOfLimit_loop.simps) auto

text \<open>
  The rule by which the pool is reasoned about: a property \<open>P\<close> of the queue, the running
  operations and the state that holds at the start, is kept when an operation is admitted
  and when one settles without an error, gives \<open>Q\<close> of the result once the pool has
  drained; an error passed by the iteratee must give \<open>Q\<close> as well.
\<close>

lemma eachOfLimit_loop_rule:
  assumes adm: "\<And>q r s. P q r s \<Longrightarrow> length r < limit \<Longrightarrow> q \<noteq> [] \<Longrightarrow>
            P (tl q) (r @ [hd q]) (start (snd (hd q)) (fst (hd q)) s)"
    and stl: "\<And>q r s k s'. P q r s \<Longrightarrow> \<not> (length r < limit \<and> q \<noteq> []) \<Longrightarrow> k < length r \<Longrightarrow>
            settle (snd (r ! k)) (fst (r ! k)) s = (None, s') \<Longrightarrow>
            P q (take k r @ drop (Suc k) r) s'"
    and err: "\<And>q r s k s' e. P q r s \<Longrightarrow> \<not> (length r < limit \<and> q \<noteq> []) \<Longrightarrow> k < length r \<Longrightarrow>
            settle (snd (r ! k)) (fst (r ! k)) s = (Some e, s') \<Longrightarrow> Q (Some e, s')"
    and fin: "\<And>q s. P q [] s \<Longrightarrow> q = [] \<or> limit = 0 \<Longrightarrow> Q (None, s)"
  shows "P queue running s \<Longrightarrow> Q (eachOfLimit_loop limit start settle sched queue running s)"
proof (induction "2 * length queue + length running" arbitrary: sched queue running s
       rule: less_induct)
  case less
  show ?case
  proof (cases "length running < limit \<and> queue \<noteq> []")
    case True
    have P': "P (tl queue) (running @ [hd queue]) (start (snd (hd queue)) (fst (hd queue)) s)"
      using adm[OF less.prems] True by blast
    have "2 * length (tl queue) + length (running @ [hd queue]) < 2 * length queue + length running"
      using True by (cases queue) auto
    from less.hyps[OF this P', of sched]
    show ?thesis using True by (simp add: eachOfLimit_loop_admit)
  next
    case False
    note nadm = this
    show ?thesis
    proof (cases "running = []")
      case True
      with nadm have "queue = [] \<or> limit = 0" by auto
      with fin[of queue s] less.prems True
      have "Q (None, s)" by simp
      then show ?thesis by (simp add: eachOfLimit_loop_drained[OF nadm True])
    next
      case False
      let ?k = "pick sched (length running)"
      have k: "?k < length running" using False by (simp add: pick_less)
      obtain e s' where st: "settle (snd (running ! ?k)) (fst (running ! ?k)) s = (e, s')"
        by (cases "settle (snd (running ! ?k)) (fst (running ! ?k)) s") auto
      show ?thesis
      proof (cases e)
        case None
        have P': "P queue (take ?k running @ drop (Suc ?k) running) s'"
          using stl[OF less.prems nadm k] st None by simp
        have "2 * length queue + length (take ?k running @ drop (Suc ?k) running)
              < 2 * length queue + length running"
          using k by auto
        from less.hyps[OF this P', of "tl sched"]
        show ?thesis
          using st None by (simp add: eachOfLimit_loop_settle[OF nadm False])
      next
        case (Some e')
        have "Q (Some e', s')"
          using err[OF less.prems nadm k] st Some by simp
        then show ?thesis
          using st Some by (simp add: eachOfLimit_loop_error[OF nadm False])
      qed
    qed
  qed
qed


lemma started_append [simp]: "started (a @ b) = started a @ started b"
  by (induction a rule: started.induct) auto

lemma settled_append [simp]: "settled (a @ b) = settled a @ settled b"
  by (induction a rule: settled.induct) auto

lemma in_flight_Nil [simp]: "in_flight [] = 0"
  by (simp add: in_flight_def)

lemma in_flight_Started [simp]: "in_flight (tr @ [Started i q]) = in_flight tr + 1"
  by (simp add: in_flight_def)

lemma in_flight_Settled [simp]: "in_flight (tr @ [Settled i r]) = in_flight tr - 1"
  by (simp add: in_flight_def)

lemma in_flight_LogProgress [simp]: "in_flight (tr @ [LogProgress a b c d]) = in_flight tr"
  by (simp add: in_flight_def)

lemma prefixes_snoc:
  assumes "\<forall>k \<le> length tr. f (take k tr) \<le> (L :: int)" and "f (tr @ [e]) \<le> L"
  shows "\<forall>k \<le> length (tr @ [e]). f (take k (tr @ [e])) \<le> L"
proof (intro allI impI)
  fix k assume k: "k \<le> length (tr @ [e])"
  show "f (take k (tr @ [e])) \<le> L"
  proof (cases "k \<le> length tr")
    case True
    then show ?thesis using assms(1) by simp
  next
    case False
    with k have "k = Suc (length tr)" by simp
    then show ?thesis using assms(2) by simp
  qed
qed

text \<open>What the iteratee of \<open>executeAllQueries\<close> does to its state.\<close>

lemma executeSingleQuery_Inr:
  "\<exists>r w. executeSingleQuery S q x = (Inr r, x\<lparr>sequelize := w\<rparr>) \<and> is_outcome_of q r"
  by (cases "query_sql S (mdm_sql q) (sequelize x)")
     (auto simp: executeSingleQuery_def is_outcome_of_def split: option.splits)

lemma iteratee_start_eq:
  "iteratee_start q i (x, pc, sc) = (x\<lparr>trace := trace x @ [Started i q]\<rparr>, pc, sc)"
  by (simp add: iteratee_start_def emit_def)

lemma iteratee_settle_effect:
  assumes "iteratee_settle S n q i (x, pc, sc) = (e, x', pc', sc')"
  shows "e = None \<and> pc' = pc + 1 \<and> safeDelete x' = safeDelete x \<and>
         (\<exists>r tail. is_outcome_of q r \<and>
            trace x' = trace x @ Settled i r # tail \<and>
            (tail = [] \<or> tail = [LogProgress pc' n sc' (length (failedQueries x'))]) \<and>
            failedQueries x' = failedQueries x @ (if success r then [] else [r]) \<and>
            sc' = sc + (if success r then 1 else 0))"
proof -
  obtain r w where r: "executeSingleQuery S q x = (Inr r, x\<lparr>sequelize := w\<rparr>)" "is_outcome_of q r"
    using executeSingleQuery_Inr[of S q x] by blast
  show ?thesis
    using assms r
    by (auto simp: iteratee_settle_def emit_def Let_def split: if_splits)
qed


lemma mset_remove_nth:
  "k < length r \<Longrightarrow> mset (take k r @ drop (Suc k) r) + {#r ! k#} = mset r"
proof -
  assume "k < length r"
  then have "r = take k r @ r ! k # drop (Suc k) r"
    by (rule id_take_nth_drop)
  then have "mset r = mset (take k r @ r ! k # drop (Suc k) r)" by simp
  then show ?thesis by simp
qed

text \<open>The invariant holds at the start and is kept by both steps of the pool.\<close>

lemma pool_inv_init: "pool_inv qs limit x0 (enumerate 0 qs) [] (x0, 0, 0)"
  by (simp add: pool_inv_def)

lemma pool_inv_admit:
  assumes inv: "pool_inv qs limit x0 q r s" and lt: "length r < limit" and ne: "q \<noteq> []"
  shows "pool_inv qs limit x0 (tl q) (r @ [hd q]) (iteratee_start (snd (hd q)) (fst (hd q)) s)"
proof -
  obtain x pc sc where s: "s = (x, pc, sc)" by (cases s) auto
  obtain i d q' where q: "q = (i, d) # q'" using ne by (cases q) auto
  from inv s obtain tr where tr:
    "trace x = trace x0 @ tr"
    "started tr @ q = enumerate 0 qs"
    "mset (map fst (settled tr)) + mset (map fst r) = mset (map fst (started tr))"
    "set r \<subseteq> set (started tr)"
    "\<forall>(i, r) \<in> set (settled tr). i < length qs \<and> is_outcome_of (qs ! i) r"
    "pc = length (settled tr)"
    "sc = length (filter (\<lambda>(i, r). success r) (settled tr))"
    "failedQueries x = failedQueries x0 @ map snd (filter (\<lambda>(i, r). \<not> success r) (settled tr))"
    "safeDelete x = safeDelete x0"
    "in_flight tr = int (length r)"
    "\<forall>k \<le> length tr. in_flight (take k tr) \<le> int limit"
    "list_all is_pool_event tr"
    unfolding pool_inv_def by auto
  let ?tr = "tr @ [Started i d]"
  have bound: "\<forall>k \<le> length ?tr. in_flight (take k ?tr) \<le> int limit"
    using tr(11) tr(10) lt by (intro prefixes_snoc) auto
  have "trace (x\<lparr>trace := trace x @ [Started i d]\<rparr>) = trace x0 @ ?tr"
    using tr(1) by simp
  moreover have "started ?tr @ q' = enumerate 0 qs"
    using tr(2) q by simp
  moreover have "mset (map fst (settled ?tr)) + mset (map fst (r @ [(i, d)])) =
                 mset (map fst (started ?tr))"
    using tr(3) by simp
  moreover have "set (r @ [(i, d)]) \<subseteq> set (started ?tr)"
    using tr(4) by auto
  moreover have "in_flight ?tr = int (length (r @ [(i, d)]))"
    using tr(10) by simp
  moreover have "list_all is_pool_event ?tr"
    using tr(12) by simp
  ultimately show ?thesis
    using tr(5-9) bound
    unfolding pool_inv_def s q iteratee_start_eq
    by (intro case_prodI exI[of _ ?tr]) (simp del: in_flight_Started)
qed


lemma iteratee_settle_no_error: "iteratee_settle S n q i s \<noteq> (Some e, s')"
proof
  assume a: "iteratee_settle S n q i s = (Some e, s')"
  obtain x pc sc where s: "s = (x, pc, sc)" by (cases s) auto
  obtain x' pc' sc' where s': "s' = (x', pc', sc')" by (cases s') auto
  from iteratee_settle_effect[of S n q i x pc sc "Some e" x' pc' sc'] a s s'
  show False by simp
qed

lemma pool_inv_settle:
  assumes inv: "pool_inv qs limit x0 q r s" and k: "k < length r"
    and st: "iteratee_settle S (length qs) (snd (r ! k)) (fst (r ! k)) s = (None, s')"
  shows "pool_inv qs limit x0 q (take k r @ drop (Suc k) r) s'"
proof -
  obtain x pc sc where s: "s = (x, pc, sc)" by (cases s) auto
  obtain x' pc' sc' where s': "s' = (x', pc', sc')" by (cases s') auto
  obtain i d where rk: "r ! k = (i, d)" by (cases "r ! k") auto
  from inv s obtain tr where tr:
    "trace x = trace x0 @ tr"
    "started tr @ q = enumerate 0 qs"
    "mset (map fst (settled tr)) + mset (map fst r) = mset (map fst (started tr))"
    "set r \<subseteq> set (started tr)"
    "\<forall>(i, r) \<in> set (settled tr). i < length qs \<and> is_outcome_of (qs ! i) r"
    "pc = length (settled tr)"
    "sc = length (filter (\<lambda>(i, r). success r) (settled tr))"
    "failedQueries x = failedQueries x0 @ map snd (filter (\<lambda>(i, r). \<not> success r) (settled tr))"
    "safeDelete x = safeDelete x0"
    "in_flight tr = int (length r)"
    "\<forall>k \<le> length tr. in_flight (take k tr) \<le> int limit"
    "list_all is_pool_event tr"
    unfolding pool_inv_def by auto
  from iteratee_settle_effect[of S "length qs" d i x pc sc None x' pc' sc'] st s s' rk
  obtain res tail where eff:
    "pc' = pc + 1" "safeDelete x' = safeDelete x" "is_outcome_of d res"
    "trace x' = trace x @ Settled i res # tail"
    "tail = [] \<or> tail = [LogProgress pc' (length qs) sc' (length (failedQueries x'))]"
    "failedQueries x' = failedQueries x @ (if success res then [] else [res])"
    "sc' = sc + (if success res then 1 else 0)"
    by auto
  let ?r = "take k r @ drop (Suc k) r"
  let ?tr1 = "tr @ [Settled i res]"
  let ?tr = "tr @ Settled i res # tail"
  have mem: "(i, d) \<in> set (enumerate 0 qs)"
  proof -
    have "(i, d) \<in> set r" using k rk by (metis nth_mem)
    then have "(i, d) \<in> set (started tr)" using tr(4) by blast
    then have "(i, d) \<in> set (started tr @ q)" by simp
    then show ?thesis by (simp only: tr(2))
  qed
  then have iq: "i < length qs" "qs ! i = d"
    by (auto simp: in_set_enumerate_eq)
  have len: "int (length ?r) = int (length r) - 1" using k by auto
  have st_tail: "started tail = []" "settled tail = []"
    using eff(5) by auto
  have fl_tail: "in_flight ?tr = in_flight ?tr1"
    using eff(5) by (auto simp: in_flight_def)
  have b1: "\<forall>k \<le> length ?tr1. in_flight (take k ?tr1) \<le> int limit"
  proof (rule prefixes_snoc[OF tr(11)])
    have "in_flight tr \<le> int limit" using tr(11) by (metis order_refl take_all)
    then show "in_flight ?tr1 \<le> int limit" by simp
  qed
  have bound: "\<forall>k \<le> length ?tr. in_flight (take k ?tr) \<le> int limit"
  proof (cases "tail = []")
    case True
    then show ?thesis using b1 by simp
  next
    case False
    let ?e = "LogProgress pc' (length qs) sc' (length (failedQueries x'))"
    have tl: "tail = [?e]" using eff(5) False by simp
    have fe: "in_flight (?tr1 @ [?e]) = in_flight ?tr1" by (rule in_flight_LogProgress)
    have "in_flight ?tr1 \<le> int limit" using b1 by (metis order_refl take_all)
    then have "in_flight (?tr1 @ [?e]) \<le> int limit" using fe by simp
    then have "\<forall>k \<le> length (?tr1 @ [?e]). in_flight (take k (?tr1 @ [?e])) \<le> int limit"
      by (rule prefixes_snoc[OF b1])
    then show ?thesis using tl by simp
  qed
  have c1: "trace x' = trace x0 @ ?tr" using tr(1) eff(4) by simp
  have c2: "started ?tr @ q = enumerate 0 qs" using tr(2) st_tail by simp
  have c3: "mset (map fst (settled ?tr)) + mset (map fst ?r) = mset (map fst (started ?tr))"
  proof -
    have "image_mset fst (mset ?r + {#r ! k#}) = image_mset fst (mset r)"
      by (simp only: mset_remove_nth[OF k])
    then have a: "mset (map fst ?r) + {#i#} = mset (map fst r)"
      using rk by simp
    have "mset (map fst (settled ?tr)) + mset (map fst ?r) =
          mset (map fst (settled tr)) + (mset (map fst ?r) + {#i#})"
      using st_tail by simp
    also have "\<dots> = mset (map fst (settled tr)) + mset (map fst r)"
      by (simp only: a)
    also have "\<dots> = mset (map fst (started tr))"
      by (rule tr(3))
    finally show ?thesis using st_tail by simp
  qed
  have c4: "set ?r \<subseteq> set (started ?tr)"
  proof -
    have "set ?r \<subseteq> set r"
      using set_take_subset[of k r] set_drop_subset[of "Suc k" r] by auto
    then show ?thesis using tr(4) st_tail by auto
  qed
  have c5: "\<forall>(i, r) \<in> set (settled ?tr). i < length qs \<and> is_outcome_of (qs ! i) r"
    using tr(5) st_tail iq eff(3) by auto
  have c6: "pc' = length (settled ?tr)" using tr(6) eff(1) st_tail by simp
  have c7: "sc' = length (filter (\<lambda>(i, r). success r) (settled ?tr))"
    using tr(7) eff(7) st_tail by simp
  have c8: "failedQueries x' =
            failedQueries x0 @ map snd (filter (\<lambda>(i, r). \<not> success r) (settled ?tr))"
    using tr(8) eff(6) st_tail by simp
  have c9: "safeDelete x' = safeDelete x0" using tr(9) eff(2) by simp
  have c10: "in_flight ?tr = int (length ?r)"
    using fl_tail tr(10) len by simp
  have c11: "list_all is_pool_event ?tr"
    using tr(12) eff(5) by auto
  show ?thesis
    unfolding pool_inv_def s' prod.case
    by (rule exI[of _ ?tr]) (intro conjI c1 c2 c3 c4 c5 c6 c7 c8 c9 c10 c11 bound)
qed



lemma since_append [simp]: "trace x' = trace x @ tr \<Longrightarrow> since x x' = tr"
  by (simp add: since_def)


lemma eachOfLimit_pool:
  assumes "0 < limit"
  shows "\<exists>s. eachOfLimit qs limit iteratee_start (iteratee_settle S (length qs)) sched (x0, 0, 0)
             = (None, s) \<and> pool_inv qs limit x0 [] [] s"
proof -
  let ?Q = "\<lambda>res. \<exists>s. res = (None, s) \<and> pool_inv qs limit x0 [] [] s"
  have "?Q (eachOfLimit_loop limit iteratee_start (iteratee_settle S (length qs)) sched
              (enumerate 0 qs) [] (x0, 0, 0))"
  proof (rule eachOfLimit_loop_rule[where P = "pool_inv qs limit x0" and Q = ?Q])
    show "pool_inv qs limit x0 (enumerate 0 qs) [] (x0, 0, 0)"
      by (rule pool_inv_init)
  next
    fix q r s
    assume "pool_inv qs limit x0 q r s" "length r < limit" "q \<noteq> []"
    then show "pool_inv qs limit x0 (tl q) (r @ [hd q]) (iteratee_start (snd (hd q)) (fst (hd q)) s)"
      by (rule pool_inv_admit)
  next
    fix q r s k s'
    assume "pool_inv qs limit x0 q r s" "k < length r"
      "iteratee_settle S (length qs) (snd (r ! k)) (fst (r ! k)) s = (None, s')"
    then show "pool_inv qs limit x0 q (take k r @ drop (Suc k) r) s'"
      by (rule pool_inv_settle)
  next
    fix q r s k s' e
    assume "iteratee_settle S (length qs) (snd (r ! k)) (fst (r ! k)) s = (Some e, s')"
    then show "?Q (Some e, s')"
      by (simp add: iteratee_settle_no_error)
  next
    fix q s
    assume "pool_inv qs limit x0 q [] s" "q = [] \<or> limit = 0"
    then show "?Q (None, s)" using assms by auto
  qed
  then show ?thesis using assms by (simp add: eachOfLimit_def)
qed

lemma map_fst_enumerate0: "map fst (enumerate 0 qs) = [0..<length qs]"
  by (simp add: map_fst_enumerate del: upt_Suc)


lemma pool_inv_final:
  assumes "pool_inv qs limit x [] [] (x', pc, sc)"
  shows "\<exists>tr. trace x' = trace x @ tr \<and>
     list_all is_pool_event tr \<and>
     started tr = enumerate 0 qs \<and>
     mset (map fst (settled tr)) = mset [0..<length qs] \<and>
     (\<forall>(i, r) \<in> set (settled tr). i < length qs \<and> is_outcome_of (qs ! i) r) \<and>
     sc = length (filter (\<lambda>(i, r). success r) (settled tr)) \<and>
     failedQueries x' = failedQueries x @ map snd (filter (\<lambda>(i, r). \<not> success r) (settled tr)) \<and>
     safeDelete x' = safeDelete x \<and>
     (\<forall>k \<le> length tr. in_flight (take k tr) \<le> int limit)"
  using assms[unfolded pool_inv_def prod.case]
proof (elim exE conjE)
  fix tr
  assume raw: "trace x' = trace x @ tr"
    "started tr @ [] = enumerate 0 qs"
    "mset (map fst (settled tr)) + mset (map fst []) = mset (map fst (started tr))"
    "\<forall>(i, r) \<in> set (settled tr). i < length qs \<and> is_outcome_of (qs ! i) r"
    "sc = length (filter (\<lambda>(i, r). success r) (settled tr))"
    "failedQueries x' = failedQueries x @ map snd (filter (\<lambda>(i, r). \<not> success r) (settled tr))"
    "safeDelete x' = safeDelete x"
    "list_all is_pool_event tr"
    "\<forall>k \<le> length tr. in_flight (take k tr) \<le> int limit"
  have st: "started tr = enumerate 0 qs" using raw(2) by simp
  have "mset (map fst (settled tr)) = mset (map fst (started tr))" using raw(3) by simp
  then have m: "mset (map fst (settled tr)) = mset [0..<length qs]"
    by (simp only: st map_fst_enumerate0)
  show ?thesis
    by (rule exI[of _ tr]) (intro conjI raw st m)
qed

text \<open>
  What one call of \<open>executeAllQueries\<close> does, for every store, schedule, input and instance.
\<close>

lemma executeAllQueries_effect:
  "\<exists>x' tr. executeAllQueries S sched qs x =
      (Inr (), x'\<lparr>trace := trace x @ tr @
                    [LogAllProcessed (length (filter (\<lambda>(i, r). success r) (settled tr)))
                                     (length (failedQueries x'))]\<rparr>) \<and>
     trace x' = trace x @ tr \<and>
     list_all is_pool_event tr \<and>
     started tr = enumerate 0 qs \<and>
     mset (map fst (settled tr)) = mset [0..<length qs] \<and>
     (\<forall>(i, r) \<in> set (settled tr). i < length qs \<and> is_outcome_of (qs ! i) r) \<and>
     failedQueries x' = failedQueries x @ map snd (filter (\<lambda>(i, r). \<not> success r) (settled tr)) \<and>
     safeDelete x' = safeDelete x \<and>
     (\<forall>k \<le> length tr. in_flight (take k tr) \<le> int CONCURRENCY_LIMIT)"
proof -
  have "0 < CONCURRENCY_LIMIT" by (simp add: CONCURRENCY_LIMIT_def)
  from eachOfLimit_pool[OF this, of qs S sched x]
  obtain s where s:
    "eachOfLimit qs CONCURRENCY_LIMIT iteratee_start (iteratee_settle S (length qs)) sched (x, 0, 0)
       = (None, s)"
    "pool_inv qs CONCURRENCY_LIMIT x [] [] s"
    by (elim exE conjE)
  obtain x' pc sc where s': "s = (x', pc, sc)" by (cases s) auto
  from pool_inv_final[OF s(2)[unfolded s']]
  show ?thesis
  proof (elim exE conjE)
    fix tr
    assume tr: "trace x' = trace x @ tr"
     "list_all is_pool_event tr"
     "started tr = enumerate 0 qs"
     "mset (map fst (settled tr)) = mset [0..<length qs]"
     "\<forall>(i, r) \<in> set (settled tr). i < length qs \<and> is_outcome_of (qs ! i) r"
     "sc = length (filter (\<lambda>(i, r). success r) (settled tr))"
     "failedQueries x' = failedQueries x @ map snd (filter (\<lambda>(i, r). \<not> success r) (settled tr))"
     "safeDelete x' = safeDelete x"
     "\<forall>k \<le> length tr. in_flight (take k tr) \<le> int CONCURRENCY_LIMIT"
    have e: "executeAllQueries S sched qs x =
          (Inr (), x'\<lparr>trace := trace x @ tr @
                    [LogAllProcessed (length (filter (\<lambda>(i, r). success r) (settled tr)))
                                     (length (failedQueries x'))]\<rparr>)"
      using s(1) s' tr(1,6) by (simp add: executeAllQueries_def emit_def)
    show ?thesis
      by (intro exI[of _ x'] exI[of _ tr] conjI e tr(1-5) tr(7-9))
  qed
qed



section \<open>The steps of execute\<close>

lemma fetchDeltaQueries_cases:
  fixes x :: "'w QlikDeltaExecutor"
  obtains (rows) qs w where
      "query_delta S (sequelize x) = (Inr qs, w)"
      "fetchDeltaQueries S x = (Inr qs, x\<lparr>sequelize := w, trace := trace x @ [SelectDelta]\<rparr>)"
  | (thrown) e w where
      "query_delta S (sequelize x) = (Inl e, w)"
      "fetchDeltaQueries S x =
         (Inl e, x\<lparr>sequelize := w, trace := trace x @ [SelectDelta, LogError (message e)]\<rparr>)"
proof (cases "query_delta S (sequelize x)")
  case (Pair r w)
  show ?thesis
  proof (cases r)
    case (Inl e)
    with Pair show ?thesis
      by (intro thrown[of e w]) (simp_all add: fetchDeltaQueries_def emit_def)
  next
    case (Inr qs)
    with Pair show ?thesis
      by (intro rows[of qs w]) (simp_all add: fetchDeltaQueries_def emit_def)
  qed
qed

lemma safeDeleteChangedInvoiceRows_cases:
  fixes x :: "'w QlikDeltaExecutor"
  obtains (select_thrown) e w where
      "query_to_remove S (sequelize x) = (Inl e, w)"
      "safeDeleteChangedInvoiceRows S x =
         (Inl e, x\<lparr>sequelize := w, trace := trace x @ [SelectToRemove, LogError (message e)]\<rparr>)"
  | (no_rows) w where
      "query_to_remove S (sequelize x) = (Inr [], w)"
      "safeDeleteChangedInvoiceRows S x =
         (Inr (Boolean True),
          x\<lparr>sequelize := w, trace := trace x @ [SelectToRemove, LogNoRowsToDelete]\<rparr>)"
  | (update_thrown) rs w e w' where
      "query_to_remove S (sequelize x) = (Inr rs, w)" "rs \<noteq> []"
      "query_update S rs w = (Some e, w')"
      "safeDeleteChangedInvoiceRows S x =
         (Inl e, x\<lparr>sequelize := w',
                   trace := trace x @ [SelectToRemove, UpdateDeletedAt (in_list rs),
                                       LogError (message e)]\<rparr>)"
  | (updated) rs w w' where
      "query_to_remove S (sequelize x) = (Inr rs, w)" "rs \<noteq> []"
      "query_update S rs w = (None, w')"
      "safeDeleteChangedInvoiceRows S x =
         (Inr (Boolean True),
          x\<lparr>sequelize := w',
            trace := trace x @ [SelectToRemove, UpdateDeletedAt (in_list rs),
                                LogMarkedDeleted (length rs)]\<rparr>)"
proof (cases "query_to_remove S (sequelize x)")
  case (Pair r w)
  show ?thesis
  proof (cases r)
    case (Inl e)
    with Pair show ?thesis
      by (intro select_thrown[of e w]) (simp_all add: safeDeleteChangedInvoiceRows_def emit_def)
  next
    case (Inr rs)
    show ?thesis
    proof (cases "rs = []")
      case True
      with Pair Inr show ?thesis
        by (intro no_rows[of w]) (simp_all add: safeDeleteChangedInvoiceRows_def emit_def)
    next
      case False
      obtain u w' where u: "query_update S rs w = (u, w')" by (cases "query_update S rs w") auto
      show ?thesis
      proof (cases u)
        case None
        with Pair Inr False u show ?thesis
          by (intro updated[of rs w w'])
             (simp_all add: safeDeleteChangedInvoiceRows_def emit_def Let_def)
      next
        case (Some e)
        with Pair Inr False u show ?thesis
          by (intro update_thrown[of rs w e w'])
             (simp_all add: safeDeleteChangedInvoiceRows_def emit_def Let_def)
      qed
    qed
  qed
qed

lemma report_cases:
  fixes x :: "'w QlikDeltaExecutor"
  obtains (nothing_failed) 
      "failedQueries x = []"
      "report S qs x =
         (Inr (), x\<lparr>trace := trace x @ [LogSummary (length qs) (int (length qs)) 0]\<rparr>)"
  | (written) r w where
      "failedQueries x \<noteq> []"
      "report S qs x =
         (r, x\<lparr>sequelize := w,
               trace := trace x @
                 [LogSummary (length qs) (int (length qs) - int (length (failedQueries x)))
                             (length (failedQueries x)),
                  WriteFileSync (failuresFile (toISOString S (sequelize x))) (failedQueries x)]\<rparr>)"
proof (cases "failedQueries x = []")
  case True
  then show ?thesis
    by (intro nothing_failed) (simp_all add: report_def emit_def Let_def)
next
  case False
  obtain u w where u: "writeFileSync S (failuresFile (toISOString S (sequelize x)))
                         (failedQueries x) (sequelize x) = (u, w)"
    by (cases "writeFileSync S (failuresFile (toISOString S (sequelize x)))
                 (failedQueries x) (sequelize x)") auto
  show ?thesis
  proof (cases u)
    case None
    with False u show ?thesis
      by (intro written[of "Inr ()" w]) (simp_all add: report_def emit_def Let_def)
  next
    case (Some e)
    with False u show ?thesis
      by (intro written[of "Inl e" w]) (simp_all add: report_def emit_def Let_def)
  qed
qed



lemma summaries_append [simp]: "summaries (a @ b) = summaries a @ summaries b"
  by (induction a rule: summaries.induct) auto

lemma writes_append [simp]: "writes (a @ b) = writes a @ writes b"
  by (induction a rule: writes.induct) auto

lemma guard_done_append [simp]: "guard_done (a @ b) = (guard_done a \<or> guard_done b)"
  by (simp add: guard_done_def)

lemma pool_events_no: 
  assumes "list_all is_pool_event tr"
  shows "SelectToRemove \<notin> set tr" "LogSafeDeleteDisabled \<notin> set tr" "Close \<notin> set tr"
    "ConnectDB \<notin> set tr"
  using assms by (auto simp: list_all_iff)

text \<open>The step before the pool: the guard, or the line that says it is disabled.\<close>

lemma guard_step_cases:
  fixes x :: "'w QlikDeltaExecutor"
  obtains (thrown) e x' g where
      "(if safeDelete x then safeDeleteChangedInvoiceRows S x
        else (Inr Undefined, emit LogSafeDeleteDisabled x)) = (Inl e, x')"
      "safeDelete x" "trace x' = trace x @ g" "failedQueries x' = failedQueries x"
      "g = [SelectToRemove, LogError (message e)] \<or>
       (\<exists>s. g = [SelectToRemove, UpdateDeletedAt s, LogError (message e)])"
  | (passed) v x' g where
      "(if safeDelete x then safeDeleteChangedInvoiceRows S x
        else (Inr Undefined, emit LogSafeDeleteDisabled x)) = (Inr v, x')"
      "trace x' = trace x @ g" "failedQueries x' = failedQueries x"
      "safeDelete x' = safeDelete x"
      "safeDelete x \<Longrightarrow> g = [SelectToRemove, LogNoRowsToDelete] \<or>
          (\<exists>s n. g = [SelectToRemove, UpdateDeletedAt s, LogMarkedDeleted n])"
      "\<not> safeDelete x \<Longrightarrow> g = [LogSafeDeleteDisabled]"
proof (cases "safeDelete x")
  case False
  then show ?thesis
    by (intro passed[of Undefined "emit LogSafeDeleteDisabled x" "[LogSafeDeleteDisabled]"])
       (simp_all add: emit_def)
next
  case True
  show ?thesis
  proof (cases rule: safeDeleteChangedInvoiceRows_cases[of S x])
    case (select_thrown e w)
    with True show ?thesis
      by (intro thrown[of e "x\<lparr>sequelize := w, trace := trace x @ [SelectToRemove, LogError (message e)]\<rparr>"
            "[SelectToRemove, LogError (message e)]"]) simp_all
  next
    case (no_rows w)
    with True show ?thesis
      by (intro passed[of "Boolean True"
            "x\<lparr>sequelize := w, trace := trace x @ [SelectToRemove, LogNoRowsToDelete]\<rparr>"
            "[SelectToRemove, LogNoRowsToDelete]"]) simp_all
  next
    case (update_thrown rs w e w')
    with True show ?thesis
      by (intro thrown[of e
            "x\<lparr>sequelize := w', trace := trace x @
               [SelectToRemove, UpdateDeletedAt (in_list rs), LogError (message e)]\<rparr>"
            "[SelectToRemove, UpdateDeletedAt (in_list rs), LogError (message e)]"])
         simp_all
  next
    case (updated rs w w')
    with True show ?thesis
      by (intro passed[of "Boolean True"
            "x\<lparr>sequelize := w', trace := trace x @
               [SelectToRemove, UpdateDeletedAt (in_list rs), LogMarkedDeleted (length rs)]\<rparr>"
            "[SelectToRemove, UpdateDeletedAt (in_list rs), LogMarkedDeleted (length rs)]"])
         simp_all
  qed
qed


text \<open>The five ways through the \<open>try\<close> block of \<open>execute\<close>, with the history of each.\<close>

lemma execute_try_cases:
  fixes x :: "'w QlikDeltaExecutor"
  obtains
    (auth_thrown) e x' where
      "execute_try S sched x = (Inl e, x')"
      "trace x' = trace x @ [Authenticate]"
  | (fetch_thrown) e x' where
      "execute_try S sched x = (Inl e, x')"
      "trace x' = trace x @ [Authenticate, SelectDelta, LogError (message e)]"
  | (guard_thrown) e x' g where
      "execute_try S sched x = (Inl e, x')"
      "safeDelete x"
      "trace x' = trace x @ [Authenticate, SelectDelta] @ g"
      "g = [SelectToRemove, LogError (message e)] \<or>
       (\<exists>s. g = [SelectToRemove, UpdateDeletedAt s, LogError (message e)])"
  | (no_queries) x' g where
      "execute_try S sched x = (Inr (), x')"
      "trace x' = trace x @ [Authenticate, SelectDelta] @ g @ [LogNoQueries]"
      "failedQueries x' = failedQueries x"
      "safeDelete x \<Longrightarrow> g = [SelectToRemove, LogNoRowsToDelete] \<or>
          (\<exists>s n. g = [SelectToRemove, UpdateDeletedAt s, LogMarkedDeleted n])"
      "\<not> safeDelete x \<Longrightarrow> g = [LogSafeDeleteDisabled]"
  | (ran) r x' g qs m tr a b R where
      "execute_try S sched x = (r, x')"
      "qs \<noteq> []"
      "trace x' = trace x @ [Authenticate, SelectDelta] @ g @ [LogTotalQueries (length qs) m] @
                  tr @ [LogAllProcessed a b] @ R"
      "safeDelete x \<Longrightarrow> g = [SelectToRemove, LogNoRowsToDelete] \<or>
          (\<exists>s n. g = [SelectToRemove, UpdateDeletedAt s, LogMarkedDeleted n])"
      "\<not> safeDelete x \<Longrightarrow> g = [LogSafeDeleteDisabled]"
      "list_all is_pool_event tr"
      "started tr = enumerate 0 qs"
      "mset (map fst (settled tr)) = mset [0..<length qs]"
      "\<forall>(i, r) \<in> set (settled tr). i < length qs \<and> is_outcome_of (qs ! i) r"
      "failedQueries x' =
         failedQueries x @ map snd (filter (\<lambda>(i, r). \<not> success r) (settled tr))"
      "failedQueries x' = [] \<Longrightarrow> R = [LogSummary (length qs) (int (length qs)) 0] \<and> r = Inr ()"
      "failedQueries x' \<noteq> [] \<Longrightarrow>
         \<exists>w. R = [LogSummary (length qs)
                         (int (length qs) - int (length (failedQueries x')))
                         (length (failedQueries x')),
                       WriteFileSync (failuresFile (toISOString S w)) (failedQueries x')]"
proof -
  obtain u w where auth: "authenticate S (sequelize x) = (u, w)"
    by (cases "authenticate S (sequelize x)") auto
  show ?thesis
  proof (cases u)
    case (Some e)
    with auth show ?thesis
      by (intro auth_thrown[of e "x\<lparr>sequelize := w, trace := trace x @ [Authenticate]\<rparr>"])
         (simp_all add: execute_try_def emit_def)
  next
    case None
    let ?xa = "x\<lparr>trace := trace x @ [Authenticate], sequelize := w\<rparr>"
    have start: "execute_try S sched x =
      (case fetchDeltaQueries S ?xa of
             (Inl err, x1) \<Rightarrow> (Inl err, x1)
           | (Inr allQueries, x1) \<Rightarrow>
               (case (if safeDelete x1 then safeDeleteChangedInvoiceRows S x1
                      else (Inr Undefined, emit LogSafeDeleteDisabled x1)) of
                  (Inl err, x2) \<Rightarrow> (Inl err, x2)
                | (Inr v, x2) \<Rightarrow>
                    if length allQueries = 0 then (Inr (), emit LogNoQueries x2)
                    else
                      (let x3 = emit (LogTotalQueries (length allQueries)
                                  (length (filter (\<lambda>query. mdm_invoice_id query = None \<or>
                                                            mdm_invoice_id query = Some [])
                                             allQueries))) x2
                       in case executeAllQueries S sched allQueries x3 of
                            (Inl err, x4) \<Rightarrow> (Inl err, x4)
                          | (Inr u, x4) \<Rightarrow> report S allQueries x4)))"
      using auth None by (simp add: execute_try_def emit_def)
    show ?thesis
    proof (cases rule: fetchDeltaQueries_cases[of S ?xa])
      case (thrown e w1)
      then show ?thesis
        by (intro fetch_thrown[of e "?xa\<lparr>sequelize := w1,
              trace := trace ?xa @ [SelectDelta, LogError (message e)]\<rparr>"])
           (simp_all add: start)
    next
      case (rows qs w1)
      let ?x1 = "?xa\<lparr>sequelize := w1, trace := trace ?xa @ [SelectDelta]\<rparr>"
      have t1: "trace ?x1 = trace x @ [Authenticate, SelectDelta]"
        and f1: "failedQueries ?x1 = failedQueries x"
        and s1: "safeDelete ?x1 = safeDelete x"
        by simp_all
      have step1: "execute_try S sched x =
        (case (if safeDelete ?x1 then safeDeleteChangedInvoiceRows S ?x1
                      else (Inr Undefined, emit LogSafeDeleteDisabled ?x1)) of
                  (Inl err, x2) \<Rightarrow> (Inl err, x2)
                | (Inr v, x2) \<Rightarrow>
                    if length qs = 0 then (Inr (), emit LogNoQueries x2)
                    else
                      (let x3 = emit (LogTotalQueries (length qs)
                                  (length (filter (\<lambda>query. mdm_invoice_id query = None \<or>
                                                            mdm_invoice_id query = Some [])
                                             qs))) x2
                       in case executeAllQueries S sched qs x3 of
                            (Inl err, x4) \<Rightarrow> (Inl err, x4)
                          | (Inr u, x4) \<Rightarrow> report S qs x4))"
        using rows(2) by (simp only: start prod.case sum.case)
      show ?thesis
      proof (cases rule: guard_step_cases[of ?x1 S])
        case (thrown e x2 g)
        have "execute_try S sched x = (Inl e, x2)"
          by (simp only: step1 thrown(1) prod.case sum.case)
        moreover have "trace x2 = trace x @ [Authenticate, SelectDelta] @ g"
          using thrown(3) t1 by simp
        ultimately show ?thesis
          using thrown(2,5) s1 by (intro guard_thrown[of e x2 g]) simp_all
      next
        case (passed v x2 g)
        have t2: "trace x2 = trace x @ [Authenticate, SelectDelta] @ g"
          using passed(2) t1 by simp
        have f2: "failedQueries x2 = failedQueries x" using passed(3) f1 by simp
        have g1: "safeDelete x \<Longrightarrow> g = [SelectToRemove, LogNoRowsToDelete] \<or>
          (\<exists>s n. g = [SelectToRemove, UpdateDeletedAt s, LogMarkedDeleted n])"
          using passed(5) s1 by simp
        have g2: "\<not> safeDelete x \<Longrightarrow> g = [LogSafeDeleteDisabled]"
          using passed(6) s1 by simp
        show ?thesis
        proof (cases "qs = []")
          case True
          have "execute_try S sched x = (Inr (), emit LogNoQueries x2)"
            using True by (simp only: step1 passed(1) prod.case sum.case) simp
          then show ?thesis
            using t2 f2 g1 g2
            by (intro no_queries[of "emit LogNoQueries x2" g]) (simp_all add: emit_def)
        next
          case False
          let ?m = "length (filter (\<lambda>query. mdm_invoice_id query = None \<or>
                                           mdm_invoice_id query = Some []) qs)"
          let ?x3 = "emit (LogTotalQueries (length qs) ?m) x2"
          have t3: "trace ?x3 = trace x @ [Authenticate, SelectDelta] @ g @
                      [LogTotalQueries (length qs) ?m]"
            using t2 by (simp add: emit_def)
          have f3: "failedQueries ?x3 = failedQueries x" using f2 by (simp add: emit_def)
          have step3: "execute_try S sched x =
             (case executeAllQueries S sched qs ?x3 of
                            (Inl err, x4) \<Rightarrow> (Inl err, x4)
                          | (Inr u, x4) \<Rightarrow> report S qs x4)"
            using False by (simp only: step1 passed(1) prod.case sum.case) (simp add: Let_def)
          from executeAllQueries_effect[of S sched qs ?x3]
          show ?thesis
          proof (elim exE conjE)
            fix x4' :: "'w QlikDeltaExecutor" and tr
            let ?a = "length (filter (\<lambda>(i, r). success r) (settled tr))"
            let ?b = "length (failedQueries x4')"
            let ?x4 = "x4'\<lparr>trace := trace ?x3 @ tr @ [LogAllProcessed ?a ?b]\<rparr>"
            assume ex: "executeAllQueries S sched qs ?x3 = (Inr (), ?x4)"
              and tr: "list_all is_pool_event tr" "started tr = enumerate 0 qs"
                "mset (map fst (settled tr)) = mset [0..<length qs]"
                "\<forall>(i, r) \<in> set (settled tr). i < length qs \<and> is_outcome_of (qs ! i) r"
                "failedQueries x4' =
                   failedQueries ?x3 @ map snd (filter (\<lambda>(i, r). \<not> success r) (settled tr))"
            have step4: "execute_try S sched x = report S qs ?x4"
              by (simp only: step3 ex prod.case sum.case)
            have t4: "trace ?x4 = trace x @ [Authenticate, SelectDelta] @ g @
                      [LogTotalQueries (length qs) ?m] @ tr @ [LogAllProcessed ?a ?b]"
              using t3 by simp
            have f4: "failedQueries ?x4 =
                   failedQueries x @ map snd (filter (\<lambda>(i, r). \<not> success r) (settled tr))"
              using tr(5) f3 by simp
            show ?thesis
            proof (cases rule: report_cases[of ?x4 S qs])
              case nothing_failed
              let ?R = "[LogSummary (length qs) (int (length qs)) 0]"
              let ?x5 = "?x4\<lparr>trace := trace ?x4 @ ?R\<rparr>"
              have e5: "execute_try S sched x = (Inr (), ?x5)"
                using nothing_failed(2) by (simp only: step4)
              have t5: "trace ?x5 = trace x @ [Authenticate, SelectDelta] @ g @
                      [LogTotalQueries (length qs) ?m] @ tr @ [LogAllProcessed ?a ?b] @ ?R"
                using t4 by simp
              have f5: "failedQueries ?x5 =
                   failedQueries x @ map snd (filter (\<lambda>(i, r). \<not> success r) (settled tr))"
                using f4 by simp
              have n5: "failedQueries ?x5 = []" using nothing_failed(1) by simp
              show ?thesis
                by (rule ran[of "Inr ()" ?x5 qs g ?m tr ?a ?b ?R])
                   (use e5 False t5 g1 g2 tr(1-4) f5 n5 in simp_all)
            next
              case (written r w5)
              let ?f = "failedQueries ?x4"
              let ?R = "[LogSummary (length qs) (int (length qs) - int (length ?f)) (length ?f),
                         WriteFileSync (failuresFile (toISOString S (sequelize ?x4))) ?f]"
              let ?x5 = "?x4\<lparr>sequelize := w5, trace := trace ?x4 @ ?R\<rparr>"
              have e5: "execute_try S sched x = (r, ?x5)"
                using written(2) by (simp only: step4)
              have t5: "trace ?x5 = trace x @ [Authenticate, SelectDelta] @ g @
                      [LogTotalQueries (length qs) ?m] @ tr @ [LogAllProcessed ?a ?b] @ ?R"
                using t4 by simp
              have f5: "failedQueries ?x5 =
                   failedQueries x @ map snd (filter (\<lambda>(i, r). \<not> success r) (settled tr))"
                using f4 by simp
              have ff: "failedQueries ?x5 = ?f" by simp
              have n5: "failedQueries ?x5 \<noteq> []" using written(1) by simp
              have R5: "\<exists>w. ?R = [LogSummary (length qs)
                         (int (length qs) - int (length (failedQueries ?x5)))
                         (length (failedQueries ?x5)),
                       WriteFileSync (failuresFile (toISOString S w)) (failedQueries ?x5)]"
                by (simp only: ff) blast
              show ?thesis
                by (rule ran[of r ?x5 qs g ?m tr ?a ?b ?R])
                   (use e5 False t5 g1 g2 tr(1-4) f5 n5 R5 in simp_all)
            qed
          qed
        qed
      qed
    qed
  qed
qed



text \<open>\<open>execute\<close> ends in \<open>process.exit(1)\<close> or in the \<open>finally\<close> block, never in both.\<close>

lemma execute_cases:
  fixes x :: "'w QlikDeltaExecutor"
  obtains
    (exited) e x1 where
      "execute_try S sched x = (Inl e, x1)"
      "execute S sched x =
         (Exited 1, x1\<lparr>trace := trace x1 @ [LogError (message e), ProcessExit 1]\<rparr>)"
  | (closing) x1 out w where
      "execute_try S sched x = (Inr (), x1)"
      "execute S sched x = (out, x1\<lparr>trace := trace x1 @ [Close], sequelize := w\<rparr>)"
      "out \<noteq> Exited 1"
proof (cases "execute_try S sched x")
  case (Pair r x1)
  show ?thesis
  proof (cases r)
    case (Inl e)
    with Pair show ?thesis
      by (intro exited[of e x1]) (simp_all add: execute_def emit_def)
  next
    case (Inr u)
    obtain c w where c: "close S (sequelize x1) = (c, w)" by (cases "close S (sequelize x1)") auto
    show ?thesis
    proof (cases c)
      case None
      with Pair Inr c show ?thesis
        by (intro closing[of x1 Resolved w]) (simp_all add: execute_def emit_def)
    next
      case (Some e)
      with Pair Inr c show ?thesis
        by (intro closing[of x1 "Rejected e" w]) (simp_all add: execute_def emit_def)
    qed
  qed
qed

lemma started_in_split: "T = pre @ Started i q # post \<Longrightarrow> started T \<noteq> []"
  by simp

lemma first_started_after:
  assumes "H @ rest = pre @ Started i q # post" and "started H = []"
  shows "\<exists>pre'. pre = H @ pre'"
proof -
  from assms(1) consider
      us where "H = pre @ us" "us @ rest = Started i q # post"
    | us where "H @ us = pre" "rest = us @ Started i q # post"
    by (auto simp: append_eq_append_conv2)
  then show ?thesis
  proof cases
    case 1
    show ?thesis
    proof (cases us)
      case Nil
      with 1 show ?thesis by simp
    next
      case (Cons u us')
      with 1 have "H = pre @ Started i q # us'" by simp
      with assms(2) show ?thesis by simp
    qed
  next
    case 2
    then show ?thesis by auto
  qed
qed


text \<open>Every run of \<open>execute\<close> takes one of five paths; the history it adds on each.\<close>

lemma execute_paths:
  fixes x :: "'w QlikDeltaExecutor"
  obtains
    (auth_thrown) e x' where
      "execute S sched x = (Exited 1, x')"
      "since x x' = [Authenticate, LogError (message e), ProcessExit 1]"
  | (fetch_thrown) e x' where
      "execute S sched x = (Exited 1, x')"
      "since x x' = [Authenticate, SelectDelta, LogError (message e), LogError (message e),
                     ProcessExit 1]"
  | (guard_thrown) e x' g where
      "execute S sched x = (Exited 1, x')"
      "safeDelete x"
      "since x x' = [Authenticate, SelectDelta] @ g @ [LogError (message e), ProcessExit 1]"
      "g = [SelectToRemove, LogError (message e)] \<or>
       (\<exists>s. g = [SelectToRemove, UpdateDeletedAt s, LogError (message e)])"
  | (no_queries) out x' g where
      "execute S sched x = (out, x')"
      "out \<noteq> Exited 1"
      "since x x' = [Authenticate, SelectDelta] @ g @ [LogNoQueries, Close]"
      "failedQueries x' = failedQueries x"
      "safeDelete x \<Longrightarrow> g = [SelectToRemove, LogNoRowsToDelete] \<or>
          (\<exists>s n. g = [SelectToRemove, UpdateDeletedAt s, LogMarkedDeleted n])"
      "\<not> safeDelete x \<Longrightarrow> g = [LogSafeDeleteDisabled]"
  | (ran) out x' g qs m tr a b R E where
      "execute S sched x = (out, x')"
      "qs \<noteq> []"
      "since x x' = [Authenticate, SelectDelta] @ g @ [LogTotalQueries (length qs) m] @
                    tr @ [LogAllProcessed a b] @ R @ E"
      "safeDelete x \<Longrightarrow> g = [SelectToRemove, LogNoRowsToDelete] \<or>
          (\<exists>s n. g = [SelectToRemove, UpdateDeletedAt s, LogMarkedDeleted n])"
      "\<not> safeDelete x \<Longrightarrow> g = [LogSafeDeleteDisabled]"
      "list_all is_pool_event tr"
      "started tr = enumerate 0 qs"
      "mset (map fst (settled tr)) = mset [0..<length qs]"
      "\<forall>(i, r) \<in> set (settled tr). i < length qs \<and> is_outcome_of (qs ! i) r"
      "failedQueries x' =
         failedQueries x @ map snd (filter (\<lambda>(i, r). \<not> success r) (settled tr))"
      "failedQueries x' = [] \<Longrightarrow> R = [LogSummary (length qs) (int (length qs)) 0]"
      "failedQueries x' \<noteq> [] \<Longrightarrow>
         \<exists>w. R = [LogSummary (length qs)
                         (int (length qs) - int (length (failedQueries x')))
                         (length (failedQueries x')),
                       WriteFileSync (failuresFile (toISOString S w)) (failedQueries x')]"
      "(E = [Close] \<and> out \<noteq> Exited 1) \<or>
       (\<exists>e. E = [LogError (message e), ProcessExit 1] \<and> out = Exited 1 \<and>
            failedQueries x' \<noteq> [])"
proof (cases rule: execute_try_cases[of S sched x])
  case (auth_thrown e x1)
  show ?thesis
  proof (cases rule: execute_cases[of S sched x])
    case (exited e' x1')
    with auth_thrown show ?thesis
      by (intro that(1)[of "x1\<lparr>trace := trace x1 @ [LogError (message e'), ProcessExit 1]\<rparr>" e'])
         (simp_all add: since_def)
  next
    case (closing x1' out w)
    with auth_thrown show ?thesis by simp
  qed
next
  case (fetch_thrown e x1)
  show ?thesis
  proof (cases rule: execute_cases[of S sched x])
    case (exited e' x1')
    with fetch_thrown show ?thesis
      by (intro that(2)[of "x1\<lparr>trace := trace x1 @ [LogError (message e'), ProcessExit 1]\<rparr>" e'])
         (simp_all add: since_def)
  next
    case (closing x1' out w)
    with fetch_thrown show ?thesis by simp
  qed
next
  case (guard_thrown e x1 g)
  show ?thesis
  proof (cases rule: execute_cases[of S sched x])
    case (exited e' x1')
    with guard_thrown show ?thesis
      by (intro that(3)[of "x1\<lparr>trace := trace x1 @ [LogError (message e'), ProcessExit 1]\<rparr>" g e'])
         (simp_all add: since_def)
  next
    case (closing x1' out w)
    with guard_thrown show ?thesis by simp
  qed
next
  case (no_queries x1 g)
  show ?thesis
  proof (cases rule: execute_cases[of S sched x])
    case (exited e' x1')
    with no_queries show ?thesis by simp
  next
    case (closing x1' out w)
    with no_queries show ?thesis
      by (intro that(4)[of out "x1\<lparr>trace := trace x1 @ [Close], sequelize := w\<rparr>" g])
         (simp_all add: since_def)
  qed
next
  case (ran r x1 g qs m tr a b R)
  show ?thesis
  proof (cases rule: execute_cases[of S sched x])
    case (exited e' x1')
    have x1: "x1' = x1" "r = Inl e'" using exited(1) ran(1) by simp_all
    have ne: "failedQueries x1 \<noteq> []" using ran(11) x1(2) by auto
    let ?x' = "x1\<lparr>trace := trace x1 @ [LogError (message e'), ProcessExit 1]\<rparr>"
    have "execute S sched x = (Exited 1, ?x')" using exited(2) x1 by simp
    moreover have "since x ?x' = [Authenticate, SelectDelta] @ g @
        [LogTotalQueries (length qs) m] @ tr @ [LogAllProcessed a b] @ R @
        [LogError (message e'), ProcessExit 1]"
      using ran(3) by (simp add: since_def)
    ultimately show ?thesis
      using ran(2) ran(4-10) ran(12) ne
      by (intro that(5)[of "Exited 1" ?x' qs g m tr a b R "[LogError (message e'), ProcessExit 1]"])
         (simp_all, blast)
  next
    case (closing x1' out w)
    have x1: "x1' = x1" using closing(1) ran(1) by simp
    let ?x' = "x1\<lparr>trace := trace x1 @ [Close], sequelize := w\<rparr>"
    have "execute S sched x = (out, ?x')" using closing(2) x1 by simp
    moreover have "since x ?x' = [Authenticate, SelectDelta] @ g @
        [LogTotalQueries (length qs) m] @ tr @ [LogAllProcessed a b] @ R @ [Close]"
      using ran(3) by (simp add: since_def)
    ultimately show ?thesis
      using ran(2) ran(4-10) ran(11,12) closing(3)
      by (intro that(5)[of out ?x' qs g m tr a b R "[Close]"]) simp_all
  qed
qed

text \<open>Facts about the pieces of a history.\<close>

lemma constructor_fields:
  "trace (constructor v w) = [ConnectDB]"
  "failedQueries (constructor v w) = []"
  "sequelize (constructor v w) = w"
  "safeDelete (constructor v w) = (case v of Boolean b \<Rightarrow> b | _ \<Rightarrow> True)"
  by (simp_all add: constructor_def)

lemma guard_done_Nil [simp]: "guard_done [] = False"
  by (simp add: guard_done_def)

lemma guard_done_Cons [simp]: "guard_done (e # es) = (is_guard_done e \<or> guard_done es)"
  by (simp add: guard_done_def)

lemma guard_thrown_facts:
  assumes "g = [SelectToRemove, LogError m] \<or>
       (\<exists>s. g = [SelectToRemove, UpdateDeletedAt s, LogError m])"
  shows "\<not> guard_done g" "started g = []" "settled g = []" "summaries g = []" "writes g = []"
    "Close \<notin> set g" "SelectToRemove \<in> set g"
  using assms by (auto simp: guard_done_def)

lemma guard_step_facts:
  assumes "safeDelete x \<Longrightarrow> g = [SelectToRemove, LogNoRowsToDelete] \<or>
          (\<exists>s n. g = [SelectToRemove, UpdateDeletedAt s, LogMarkedDeleted n])"
      and "\<not> safeDelete x \<Longrightarrow> g = [LogSafeDeleteDisabled]"
  shows "started g = []" "settled g = []" "summaries g = []" "writes g = []" "Close \<notin> set g"
    "if safeDelete x then guard_done g else LogSafeDeleteDisabled \<in> set g"
  using assms by (cases "safeDelete x"; auto simp: guard_done_def)+

lemma in_flight_LogAllProcessed [simp]: "in_flight (tr @ [LogAllProcessed a b]) = in_flight tr"
  by (simp add: in_flight_def)




section \<open>The store under the pool\<close>









section \<open>A run of execute, split at the executor\<close>









section \<open>Reading the command line\<close>

lemma parseInt10_no_digit:
  assumes "\<forall>c \<in> set a. \<not> isDigit c"
  shows "parseInt10 a = None"
proof -
  let ?S = "dropWhile isWhiteSpace a"
  let ?S' = "case ?S of c # r \<Rightarrow> if c = CHR ''+'' \<or> c = CHR ''-'' then r else ?S | [] \<Rightarrow> ?S"
  have "set ?S \<subseteq> set a" by (rule set_dropWhileD[THEN subsetI])
  moreover have "set (case S of c # r \<Rightarrow> if c = CHR ''+'' \<or> c = CHR ''-'' then r else S
                             | [] \<Rightarrow> S) \<subseteq> set S" for S :: string
    by (cases S) auto
  then have "set ?S' \<subseteq> set ?S" .
  ultimately have "\<forall>c \<in> set ?S'. \<not> isDigit c" using assms by blast
  then have "takeWhile isDigit ?S' = []" by (cases ?S') auto
  then show ?thesis by (simp add: parseInt10_def Let_def)
qed

lemma parseInt10_examples:
  "parseInt10 ''true'' = None" "parseInt10 ''yes'' = None"
  "parseInt10 ''0'' = Some 0" "parseInt10 ''1'' = Some 1" "parseInt10 ''2'' = Some 2"
  by (simp_all add: parseInt10_def isWhiteSpace_def isDigit_def digitsValue_def Let_def)

section \<open>The steps of the workflow script\<close>

lemma processing_append [simp]: "processing (a @ b) = processing a @ processing b"
  by (induction a rule: processing.induct) auto

lemma echoed_append [simp]: "stdout st' = stdout st @ es \<Longrightarrow> echoed st st' = es"
  by (simp add: echoed_def)

text \<open>Writes to a log.\<close>

lemma append_log_eq:
  "append_log sh file e st =
     (case append_to sh file (sys st) of
        (ok, v) \<Rightarrow>
          (ok, st\<lparr>sys := v, logs := (logs st)(file := logs st file @ (if ok then [e] else []))\<rparr>))"
  by (simp add: append_log_def split: prod.splits bool.splits)

lemma three_appends:
  "snd (append_log sh file e3 (snd (append_log sh file e2 (snd (append_log sh file e1 st))))) =
   appends sh file [e1, e2, e3] st"
  by (simp add: append_log_eq appends.simps split: prod.splits)

lemma stdout_appends [simp]: "stdout (appends sh file es st) = stdout st"
  by (induction es arbitrary: st) (auto simp: appends.simps split: prod.splits)

lemma logs_appends_other:
  "file' \<noteq> file \<Longrightarrow> logs (appends sh file es st) file' = logs st file'"
  by (induction es arbitrary: st) (auto simp: appends.simps split: prod.splits)

lemma logs_appends_written:
  "\<forall>v. fst (append_to sh file v) \<Longrightarrow>
   logs (appends sh file es st) file = logs st file @ es"
proof (induction es arbitrary: st)
  case Nil
  show ?case by (simp add: appends.simps)
next
  case (Cons e es)
  obtain ok v where a: "append_to sh file (sys st) = (ok, v)"
    by (cases "append_to sh file (sys st)") auto
  have "ok" using Cons.prems a by (metis fst_conv)
  then show ?case
    using a Cons.IH[OF Cons.prems] by (simp add: appends.simps)
qed

lemma logs_appends_lost:
  "\<forall>v. \<not> fst (append_to sh file v) \<Longrightarrow> logs (appends sh file es st) = logs st"
proof (induction es arbitrary: st)
  case Nil
  show ?case by (simp add: appends.simps)
next
  case (Cons e es)
  obtain ok v where a: "append_to sh file (sys st) = (ok, v)"
    by (cases "append_to sh file (sys st)") auto
  have "\<not> ok" using Cons.prems a by (metis fst_conv)
  then show ?case
    using a Cons.IH[OF Cons.prems] by (simp add: appends.simps)
qed

text \<open>The loop of \<open>run_cmd_with_retry\<close>, one turn at a time.\<close>

lemma retry_loop_succeeds:
  "attempt \<le> max_attempts \<Longrightarrow> bash_c sh cmd (sys st) = ((True, out), v) \<Longrightarrow>
   retry_loop sh cmd failfile attempt st =
     (0, st\<lparr>sys := v, stdout := stdout st @ [Attempt attempt cmd, CommandSucceeded attempt]\<rparr>)"
  by (subst retry_loop.simps) (simp add: say_def)

lemma retry_loop_fails:
  "attempt \<le> max_attempts \<Longrightarrow> bash_c sh cmd (sys st) = ((False, out), v) \<Longrightarrow>
   retry_loop sh cmd failfile attempt st =
     retry_loop sh cmd failfile (attempt + 1)
       (appends sh failfile
          [AttemptOutputBegin attempt, AttemptOutput out, AttemptOutputEnd attempt]
          (st\<lparr>sys := v, stdout := stdout st @ [Attempt attempt cmd, CommandFailed attempt]\<rparr>))"
  by (subst retry_loop.simps) (simp add: three_appends say_def)

lemma retry_loop_exhausted:
  "\<not> attempt \<le> max_attempts \<Longrightarrow> retry_loop sh cmd failfile attempt st = (1, st)"
  by (subst retry_loop.simps) simp

text \<open>
  \<open>run_cmd_with_retry\<close> unrolled: the command is run once, or twice when its first attempt
  failed, and never a third time.
\<close>

lemma run_cmd_with_retry_unrolled:
  fixes st :: "'v script"
  shows
    "(case bash_c sh cmd (sys st) of
        ((True, o1), v1) \<Rightarrow>
          run_cmd_with_retry sh cmd failfile st =
            (0, st\<lparr>sys := v1, stdout := stdout st @ [Attempt 1 cmd, CommandSucceeded 1]\<rparr>)
      | ((False, o1), v1) \<Rightarrow>
          (let st1 = appends sh failfile
                       [AttemptOutputBegin 1, AttemptOutput o1, AttemptOutputEnd 1]
                       (st\<lparr>sys := v1, stdout := stdout st @ [Attempt 1 cmd, CommandFailed 1]\<rparr>)
           in case bash_c sh cmd (sys st1) of
                ((True, o2), v2) \<Rightarrow>
                  run_cmd_with_retry sh cmd failfile st =
                    (0, st1\<lparr>sys := v2,
                            stdout := stdout st1 @ [Attempt 2 cmd, CommandSucceeded 2]\<rparr>)
              | ((False, o2), v2) \<Rightarrow>
                  run_cmd_with_retry sh cmd failfile st =
                    (1, appends sh failfile
                          [AttemptOutputBegin 2, AttemptOutput o2, AttemptOutputEnd 2]
                          (st1\<lparr>sys := v2,
                               stdout := stdout st1 @ [Attempt 2 cmd, CommandFailed 2]\<rparr>))))"
proof -
  obtain b1 o1 v1 where r1: "bash_c sh cmd (sys st) = ((b1, o1), v1)"
    by (cases "bash_c sh cmd (sys st)") auto
  have le1: "1 \<le> max_attempts" and le2: "1 + 1 \<le> max_attempts"
    and gt3: "\<not> 1 + 1 + 1 \<le> max_attempts"
    by (simp_all add: max_attempts_def)
  show ?thesis
  proof (cases b1)
    case True
    have "run_cmd_with_retry sh cmd failfile st =
            (0, st\<lparr>sys := v1, stdout := stdout st @ [Attempt 1 cmd, CommandSucceeded 1]\<rparr>)"
      unfolding run_cmd_with_retry_def using r1 True by (intro retry_loop_succeeds[OF le1]) simp
    then show ?thesis using r1 True by simp
  next
    case False
    note f1 = this
    let ?st1 = "appends sh failfile [AttemptOutputBegin 1, AttemptOutput o1, AttemptOutputEnd 1]
                  (st\<lparr>sys := v1, stdout := stdout st @ [Attempt 1 cmd, CommandFailed 1]\<rparr>)"
    have step1: "run_cmd_with_retry sh cmd failfile st = retry_loop sh cmd failfile (1 + 1) ?st1"
      unfolding run_cmd_with_retry_def using r1 f1 by (intro retry_loop_fails[OF le1]) simp
    obtain b2 o2 v2 where r2: "bash_c sh cmd (sys ?st1) = ((b2, o2), v2)"
      by (cases "bash_c sh cmd (sys ?st1)") auto
    show ?thesis
    proof (cases b2)
      case True
      have "retry_loop sh cmd failfile (1 + 1) ?st1 =
              (0, ?st1\<lparr>sys := v2,
                       stdout := stdout ?st1 @ [Attempt (1 + 1) cmd, CommandSucceeded (1 + 1)]\<rparr>)"
        using r2 True by (intro retry_loop_succeeds[OF le2]) simp
      then have "run_cmd_with_retry sh cmd failfile st =
              (0, ?st1\<lparr>sys := v2, stdout := stdout ?st1 @ [Attempt 2 cmd, CommandSucceeded 2]\<rparr>)"
        using step1 by (simp add: numeral_2_eq_2)
      then show ?thesis
        using r1 f1 r2 True by (simp add: Let_def)
    next
      case False
      let ?st2 = "appends sh failfile
                    [AttemptOutputBegin (1 + 1), AttemptOutput o2, AttemptOutputEnd (1 + 1)]
                    (?st1\<lparr>sys := v2,
                          stdout := stdout ?st1 @ [Attempt (1 + 1) cmd, CommandFailed (1 + 1)]\<rparr>)"
      have "retry_loop sh cmd failfile (1 + 1) ?st1 = retry_loop sh cmd failfile (1 + 1 + 1) ?st2"
        using r2 False by (intro retry_loop_fails[OF le2]) simp
      also have "\<dots> = (1, ?st2)" by (rule retry_loop_exhausted[OF gt3])
      finally have "run_cmd_with_retry sh cmd failfile st = (1, ?st2)" using step1 by simp
      then have "run_cmd_with_retry sh cmd failfile st =
                    (1, appends sh failfile
                          [AttemptOutputBegin 2, AttemptOutput o2, AttemptOutputEnd 2]
                          (?st1\<lparr>sys := v2,
                               stdout := stdout ?st1 @ [Attempt 2 cmd, CommandFailed 2]\<rparr>))"
        by (simp add: numeral_2_eq_2)
      then show ?thesis
        using r1 f1 r2 False by (simp add: Let_def)
    qed
  qed
qed

text \<open>
  A nonzero status: both attempts failed, and a log that can be written has gained the
  output of both.
\<close>

lemma run_cmd_with_retry_exhausted_log:
  fixes st :: "'v script"
  assumes w: "\<forall>v. fst (append_to sh failfile v)"
    and nz: "fst (run_cmd_with_retry sh cmd failfile st) \<noteq> 0"
  shows
    "case bash_c sh cmd (sys st) of
       ((ok1, o1), v1) \<Rightarrow>
         (case bash_c sh cmd
                 (sys (appends sh failfile
                         [AttemptOutputBegin 1, AttemptOutput o1, AttemptOutputEnd 1]
                         (st\<lparr>sys := v1,
                              stdout := stdout st @ [Attempt 1 cmd, CommandFailed 1]\<rparr>))) of
            ((ok2, o2), v2) \<Rightarrow>
              \<not> ok1 \<and> \<not> ok2 \<and>
              logs (snd (run_cmd_with_retry sh cmd failfile st)) failfile =
                logs st failfile @
                [AttemptOutputBegin 1, AttemptOutput o1, AttemptOutputEnd 1,
                 AttemptOutputBegin 2, AttemptOutput o2, AttemptOutputEnd 2] \<and>
              stdout (snd (run_cmd_with_retry sh cmd failfile st)) =
                stdout st @ [Attempt 1 cmd, CommandFailed 1, Attempt 2 cmd, CommandFailed 2])"
proof -
  obtain b1 o1 v1 where r1: "bash_c sh cmd (sys st) = ((b1, o1), v1)"
    by (cases "bash_c sh cmd (sys st)") auto
  let ?st0 = "st\<lparr>sys := v1, stdout := stdout st @ [Attempt 1 cmd, CommandFailed 1]\<rparr>"
  let ?st1 = "appends sh failfile [AttemptOutputBegin 1, AttemptOutput o1, AttemptOutputEnd 1] ?st0"
  obtain b2 o2 v2 where r2: "bash_c sh cmd (sys ?st1) = ((b2, o2), v2)"
    by (cases "bash_c sh cmd (sys ?st1)") auto
  note u = run_cmd_with_retry_unrolled[where sh = sh and cmd = cmd and st = st
      and failfile = failfile]
  have nb1: "\<not> b1"
  proof
    assume b1
    with u r1 nz show False by simp
  qed
  have b1F: "b1 = False" using nb1 by simp
  have u1: "case bash_c sh cmd (sys ?st1) of
                ((True, o2), v2) \<Rightarrow>
                  run_cmd_with_retry sh cmd failfile st =
                    (0, ?st1\<lparr>sys := v2,
                            stdout := stdout ?st1 @ [Attempt 2 cmd, CommandSucceeded 2]\<rparr>)
              | ((False, o2), v2) \<Rightarrow>
                  run_cmd_with_retry sh cmd failfile st =
                    (1, appends sh failfile
                          [AttemptOutputBegin 2, AttemptOutput o2, AttemptOutputEnd 2]
                          (?st1\<lparr>sys := v2,
                               stdout := stdout ?st1 @ [Attempt 2 cmd, CommandFailed 2]\<rparr>))"
    using u unfolding r1 b1F prod.case bool.case Let_def .
  have nb2: "\<not> b2"
  proof
    assume b2
    with u1 r2 nz show False by simp
  qed
  let ?st2 = "?st1\<lparr>sys := v2, stdout := stdout ?st1 @ [Attempt 2 cmd, CommandFailed 2]\<rparr>"
  have run: "run_cmd_with_retry sh cmd failfile st =
               (1, appends sh failfile
                     [AttemptOutputBegin 2, AttemptOutput o2, AttemptOutputEnd 2] ?st2)"
    using u1 r2 nb2 by simp
  have l1: "logs ?st1 failfile =
            logs st failfile @ [AttemptOutputBegin 1, AttemptOutput o1, AttemptOutputEnd 1]"
    using logs_appends_written[OF w, of _ ?st0] by simp
  have l2: "logs (appends sh failfile
                    [AttemptOutputBegin 2, AttemptOutput o2, AttemptOutputEnd 2] ?st2) failfile =
            logs ?st2 failfile @ [AttemptOutputBegin 2, AttemptOutput o2, AttemptOutputEnd 2]"
    by (rule logs_appends_written[OF w])
  have l3: "logs ?st2 failfile = logs ?st1 failfile" by simp
  have lg: "logs (snd (run_cmd_with_retry sh cmd failfile st)) failfile =
                logs st failfile @
                [AttemptOutputBegin 1, AttemptOutput o1, AttemptOutputEnd 1,
                 AttemptOutputBegin 2, AttemptOutput o2, AttemptOutputEnd 2]"
    by (simp only: run snd_conv l2 l3 l1) simp
  have so: "stdout (snd (run_cmd_with_retry sh cmd failfile st)) =
                stdout st @ [Attempt 1 cmd, CommandFailed 1, Attempt 2 cmd, CommandFailed 2]"
    by (simp add: run)
  show ?thesis
    unfolding r1 prod.case r2
    by (intro conjI nb1 nb2 lg so)
qed

lemma run_cmd_with_retry_echo:
  fixes st :: "'v script"
  shows "\<exists>es. stdout (snd (run_cmd_with_retry sh cmd failfile st)) = stdout st @ es \<and>
              processing es = []"
proof -
  obtain b1 o1 v1 where r1: "bash_c sh cmd (sys st) = ((b1, o1), v1)"
    by (cases "bash_c sh cmd (sys st)") auto
  let ?st1 = "appends sh failfile [AttemptOutputBegin 1, AttemptOutput o1, AttemptOutputEnd 1]
                (st\<lparr>sys := v1, stdout := stdout st @ [Attempt 1 cmd, CommandFailed 1]\<rparr>)"
  obtain b2 o2 v2 where r2: "bash_c sh cmd (sys ?st1) = ((b2, o2), v2)"
    by (cases "bash_c sh cmd (sys ?st1)") auto
  note u = run_cmd_with_retry_unrolled[where sh = sh and cmd = cmd and st = st and failfile = failfile]
  show ?thesis
  proof (cases b1)
    case True
    with u r1 show ?thesis by simp
  next
    case False
    note f1 = this
    show ?thesis
    proof (cases b2)
      case True
      with u r1 f1 r2 show ?thesis by (simp add: Let_def)
    next
      case False
      with u r1 f1 r2 show ?thesis by (simp add: Let_def)
    qed
  qed
qed

text \<open>The body of the month loop.\<close>

lemma month_body_present:
  fixes st :: "'v script"
  assumes "is_file sh (INVOICE WORKDIR MM) (sys st)"
  shows "case run_cmd_with_retry sh (PART1 WORKDIR MM) (FAILFILE WORKDIR MM)
                (say (Processing MM) st) of
           (Suc n, st2) \<Rightarrow> month_body sh WORKDIR MM st = (None, say (Part1Failed MM) st2)
         | (0, st2) \<Rightarrow>
             (case run_cmd_with_retry sh (PART2 WORKDIR) (FAILFILE WORKDIR MM)
                     (say (Part1Succeeded MM) st2) of
                (Suc n, st3) \<Rightarrow> month_body sh WORKDIR MM st = (None, say (Part2Failed MM) st3)
              | (0, st3) \<Rightarrow>
                  month_body sh WORKDIR MM st =
                    (None, say (Completed MM) (say (Part2Succeeded MM) st3)))"
proof -
  have "sys (say (Processing MM) st) = sys st" by (simp add: say_def)
  then show ?thesis
    using assms by (simp add: month_body_def Let_def split: prod.splits nat.splits)
qed

lemma month_body_None_if_present:
  fixes st :: "'v script"
  assumes "is_file sh (INVOICE WORKDIR MM) (sys st)"
  shows "fst (month_body sh WORKDIR MM st) = None"
  using month_body_present[OF assms]
  by (auto split: prod.splits nat.splits)

lemma month_body_absent:
  fixes st :: "'v script"
  assumes "\<not> is_file sh (INVOICE WORKDIR MM) (sys st)"
  shows "case append_to sh (FAILFILE WORKDIR MM) (sys st) of
           (True, v) \<Rightarrow>
             month_body sh WORKDIR MM st =
               (None, st\<lparr>sys := v,
                         logs := (logs st)(FAILFILE WORKDIR MM :=
                                   logs st (FAILFILE WORKDIR MM) @
                                   [InvoiceFileMissing (INVOICE WORKDIR MM)]),
                         stdout := stdout st @ [Processing MM, InvoiceMissing (INVOICE WORKDIR MM),
                                                Skipping MM]\<rparr>)
         | (False, v) \<Rightarrow>
             month_body sh WORKDIR MM st =
               (Some 1, st\<lparr>sys := v,
                           stdout := stdout st @ [Processing MM,
                                                  InvoiceMissing (INVOICE WORKDIR MM)]\<rparr>)"
  using assms
  by (simp add: month_body_def Let_def append_log_def say_def split: prod.splits bool.splits)

text \<open>
  The first part of a month exhausts its attempts: the month ends there, and its own log,
  when it can be written, has gained the output of both attempts.
\<close>

lemma month_body_part1_exhausted:
  fixes st :: "'v script"
  assumes f: "is_file sh (INVOICE WORKDIR MM) (sys st)"
    and w: "\<forall>v. fst (append_to sh (FAILFILE WORKDIR MM) v)"
    and nz: "fst (run_cmd_with_retry sh (PART1 WORKDIR MM) (FAILFILE WORKDIR MM)
                    (say (Processing MM) st)) \<noteq> 0"
  shows
    "case bash_c sh (PART1 WORKDIR MM) (sys st) of
       ((ok1, o1), v1) \<Rightarrow>
         (case bash_c sh (PART1 WORKDIR MM)
                 (sys (appends sh (FAILFILE WORKDIR MM)
                         [AttemptOutputBegin 1, AttemptOutput o1, AttemptOutputEnd 1]
                         (st\<lparr>sys := v1,
                              stdout := stdout st @
                                [Processing MM, Attempt 1 (PART1 WORKDIR MM),
                                 CommandFailed 1]\<rparr>))) of
            ((ok2, o2), v2) \<Rightarrow>
              \<not> ok1 \<and> \<not> ok2 \<and>
              fst (month_body sh WORKDIR MM st) = None \<and>
              logs (snd (month_body sh WORKDIR MM st)) (FAILFILE WORKDIR MM) =
                logs st (FAILFILE WORKDIR MM) @
                [AttemptOutputBegin 1, AttemptOutput o1, AttemptOutputEnd 1,
                 AttemptOutputBegin 2, AttemptOutput o2, AttemptOutputEnd 2] \<and>
              stdout (snd (month_body sh WORKDIR MM st)) =
                stdout st @
                [Processing MM, Attempt 1 (PART1 WORKDIR MM), CommandFailed 1,
                 Attempt 2 (PART1 WORKDIR MM), CommandFailed 2, Part1Failed MM])"
proof -
  let ?P = "PART1 WORKDIR MM"
  let ?F = "FAILFILE WORKDIR MM"
  let ?s = "say (Processing MM) st"
  have s: "sys ?s = sys st" "stdout ?s = stdout st @ [Processing MM]" "logs ?s = logs st"
    by (simp_all add: say_def)
  obtain b1 o1 v1 where r1: "bash_c sh ?P (sys st) = ((b1, o1), v1)"
    by (cases "bash_c sh ?P (sys st)") auto
  let ?st0 = "st\<lparr>sys := v1,
                 stdout := stdout st @ [Processing MM, Attempt 1 ?P, CommandFailed 1]\<rparr>"
  let ?es1 = "[AttemptOutputBegin 1, AttemptOutput o1, AttemptOutputEnd 1]"
  have e0: "?s\<lparr>sys := v1, stdout := stdout ?s @ [Attempt 1 ?P, CommandFailed 1]\<rparr> = ?st0"
    by (simp add: say_def)
  obtain b2 o2 v2 where r2: "bash_c sh ?P (sys (appends sh ?F ?es1 ?st0)) = ((b2, o2), v2)"
    by (cases "bash_c sh ?P (sys (appends sh ?F ?es1 ?st0))") auto
  have r1': "bash_c sh ?P (sys ?s) = ((b1, o1), v1)"
    using r1 by (simp only: s(1))
  note h = run_cmd_with_retry_exhausted_log[OF w nz, unfolded r1' prod.case e0 r2]
  obtain rc st2 where r: "run_cmd_with_retry sh ?P ?F ?s = (rc, st2)"
    by (cases "run_cmd_with_retry sh ?P ?F ?s") auto
  obtain n where rc: "rc = Suc n" using nz r by (cases rc) auto
  have mb: "month_body sh WORKDIR MM st = (None, say (Part1Failed MM) st2)"
    using month_body_present[OF f, unfolded r prod.case] rc by simp
  have m: "fst (month_body sh WORKDIR MM st) = None"
    "logs (snd (month_body sh WORKDIR MM st)) = logs st2"
    "stdout (snd (month_body sh WORKDIR MM st)) = stdout st2 @ [Part1Failed MM]"
    by (simp_all add: mb say_def)
  have st2: "snd (run_cmd_with_retry sh ?P ?F ?s) = st2" by (simp add: r)
  show ?thesis
    unfolding r1 prod.case r2
    using h by (simp add: m st2 s)
qed

lemma month_body_exit:
  fixes st :: "'v script"
  assumes "month_body sh WORKDIR MM st = (Some status, st')"
  shows "\<not> is_file sh (INVOICE WORKDIR MM) (sys st) \<and> status = 1 \<and>
         \<not> fst (append_to sh (FAILFILE WORKDIR MM) (sys st))"
proof (cases "is_file sh (INVOICE WORKDIR MM) (sys st)")
  case True
  from month_body_None_if_present[OF True] assms show ?thesis by simp
next
  case False
  from month_body_absent[OF False] assms False show ?thesis
    by (auto split: prod.splits bool.splits)
qed

lemma month_body_echo:
  fixes st :: "'v script"
  shows "\<exists>rest. stdout (snd (month_body sh WORKDIR MM st)) = stdout st @ Processing MM # rest \<and>
                processing rest = []"
proof (cases "is_file sh (INVOICE WORKDIR MM) (sys st)")
  case False
  from month_body_absent[OF False] show ?thesis
    by (auto split: prod.splits bool.splits)
next
  case True
  let ?st1 = "say (Processing MM) st"
  have s1: "stdout ?st1 = stdout st @ [Processing MM]" by (simp add: say_def)
  obtain rc1 st2 where r1:
    "run_cmd_with_retry sh (PART1 WORKDIR MM) (FAILFILE WORKDIR MM) ?st1 = (rc1, st2)"
    by (cases "run_cmd_with_retry sh (PART1 WORKDIR MM) (FAILFILE WORKDIR MM) ?st1") auto
  from run_cmd_with_retry_echo[of sh "PART1 WORKDIR MM" "FAILFILE WORKDIR MM" ?st1] r1
  obtain es1 where es1: "stdout st2 = stdout ?st1 @ es1" "processing es1 = []"
    by auto
  note mb = month_body_present[OF True, unfolded r1 prod.case]
  show ?thesis
  proof (cases rc1)
    case (Suc n)
    with mb es1 s1 show ?thesis
      by (intro exI[of _ "es1 @ [Part1Failed MM]"]) (simp add: say_def)
  next
    case 0
    let ?st2 = "say (Part1Succeeded MM) st2"
    have s2: "stdout ?st2 = stdout st @ Processing MM # es1 @ [Part1Succeeded MM]"
      using es1 s1 by (simp add: say_def)
    obtain rc2 st3 where r2:
      "run_cmd_with_retry sh (PART2 WORKDIR) (FAILFILE WORKDIR MM) ?st2 = (rc2, st3)"
      by (cases "run_cmd_with_retry sh (PART2 WORKDIR) (FAILFILE WORKDIR MM) ?st2") auto
    from run_cmd_with_retry_echo[of sh "PART2 WORKDIR" "FAILFILE WORKDIR MM" ?st2] r2
    obtain es2 where es2: "stdout st3 = stdout ?st2 @ es2" "processing es2 = []"
      by auto
    note mb2 = mb[unfolded 0 nat.case r2 prod.case]
    show ?thesis
    proof (cases rc2)
      case (Suc n)
      with mb2 es2 s2 es1(2) show ?thesis
        by (intro exI[of _ "es1 @ [Part1Succeeded MM] @ es2 @ [Part2Failed MM]"])
           (simp add: say_def)
    next
      case 0
      with mb2 es2 s2 es1(2) show ?thesis
        by (intro exI[of _ "es1 @ [Part1Succeeded MM] @ es2 @ [Part2Succeeded MM, Completed MM]"])
           (simp add: say_def)
    qed
  qed
qed

text \<open>
  The loop reaches every month when no month can end the script: each month has its invoice
  file, or its log can be written.
\<close>

lemma for_months_all:
  fixes st :: "'v script"
  assumes "\<forall>MM \<in> set ms. \<forall>v. is_file sh (INVOICE WORKDIR MM) v \<or>
                               fst (append_to sh (FAILFILE WORKDIR MM) v)"
  shows "\<exists>st' es. for_months sh WORKDIR ms st = (None, st') \<and> stdout st' = stdout st @ es \<and>
                   processing es = ms"
  using assms
proof (induction ms arbitrary: st)
  case Nil
  show ?case by simp
next
  case (Cons MM ms)
  obtain r st1 where mb: "month_body sh WORKDIR MM st = (r, st1)"
    by (cases "month_body sh WORKDIR MM st") auto
  have r: "r = None"
  proof (cases r)
    case None
    then show ?thesis .
  next
    case (Some status)
    from month_body_exit[OF mb[unfolded Some]] Cons.prems show ?thesis by auto
  qed
  from month_body_echo[of sh WORKDIR MM st] mb obtain rest where
    rest: "stdout st1 = stdout st @ Processing MM # rest" "processing rest = []" by auto
  from Cons.IH[of st1] Cons.prems obtain st' es where
    st': "for_months sh WORKDIR ms st1 = (None, st')" "stdout st' = stdout st1 @ es"
      "processing es = ms"
    by auto
  have "for_months sh WORKDIR (MM # ms) st = (None, st')"
    using mb r st'(1) by simp
  moreover have "stdout st' = stdout st @ (Processing MM # rest @ es)"
    using rest(1) st'(2) by simp
  moreover have "processing (Processing MM # rest @ es) = MM # ms"
    using rest(2) st'(3) by simp
  ultimately show ?case by blast
qed

lemma PART1_neq_PART2: "PART1 WORKDIR MM \<noteq> PART2 WORKDIR"
  by (simp add: PART1_def PART2_def)

section \<open>Four runs on the in-memory store\<close>

lemmas run_simps =
  execute_def execute_try_def fetchDeltaQueries_def safeDeleteChangedInvoiceRows_def
  executeAllQueries_def eachOfLimit_def eachOfLimit_loop.simps iteratee_start_def
  iteratee_settle_def executeSingleQuery_def report_def failuresFile_def in_list_def
  CONCURRENCY_LIMIT_def emit_def Let_def enumerate_eq_zip
  mem_store_def update_fails_store_def mem0_def mem1_def constructor_def

text \<open>One row, whose statement fails: the run goes through and writes the failure file.\<close>

lemma run_one_failing_row:
  "execute mem_store [] (constructor Undefined mem1) =
     (Resolved,
      \<lparr>sequelize = mem1\<lparr>invoice_qlik := [(''A'', Some 7), (''B'', None)], now := 8,
               files := [(''failed_queries_2024-09-30.json'',
                          [\<lparr>res_invoice_line_id = ''L2'', success = False,
                            error = Some ''constraint violated'',
                            res_mdm_sql = Some ''!insert 2''\<rparr>])],
               closed := True\<rparr>,
       failedQueries = [\<lparr>res_invoice_line_id = ''L2'', success = False,
                         error = Some ''constraint violated'',
                         res_mdm_sql = Some ''!insert 2''\<rparr>],
       safeDelete = True,
       trace = [ConnectDB, Authenticate, SelectDelta, SelectToRemove,
                UpdateDeletedAt [CHR 0x27, CHR ''A'', CHR 0x27], LogMarkedDeleted 1,
                LogTotalQueries 1 1,
                Started 0 \<lparr>invoice_line_id = ''L2'', mdm_invoice_id = None,
                           mdm_sql = ''!insert 2''\<rparr>,
                Settled 0 \<lparr>res_invoice_line_id = ''L2'', success = False,
                           error = Some ''constraint violated'',
                           res_mdm_sql = Some ''!insert 2''\<rparr>,
                LogProgress 1 1 0 1, LogAllProcessed 0 1, LogSummary 1 0 1,
                WriteFileSync ''failed_queries_2024-09-30.json''
                  [\<lparr>res_invoice_line_id = ''L2'', success = False,
                    error = Some ''constraint violated'',
                    res_mdm_sql = Some ''!insert 2''\<rparr>],
                Close]\<rparr>)"
  by (simp add: run_simps)

text \<open>The \<open>UPDATE\<close> of the safe-delete pass throws: the run exits.\<close>

lemma run_update_fails:
  "execute update_fails_store [] (constructor Undefined mem1) =
     (Exited 1,
      \<lparr>sequelize = mem1, failedQueries = [], safeDelete = True,
       trace = [ConnectDB, Authenticate, SelectDelta, SelectToRemove,
                UpdateDeletedAt [CHR 0x27, CHR ''A'', CHR 0x27],
                LogError ''deadlock detected'', LogError ''deadlock detected'',
                ProcessExit 1]\<rparr>)"
  by (simp add: run_simps)


text \<open>The store cannot be reached: \<open>authenticate\<close> throws and the run exits.\<close>

lemma run_unreachable:
  "execute mem_store [] (constructor Undefined (mem0\<lparr>reachable := False\<rparr>)) =
     (Exited 1,
      \<lparr>sequelize = mem0\<lparr>reachable := False\<rparr>, failedQueries = [], safeDelete = True,
       trace = [ConnectDB, Authenticate, LogError ''ECONNREFUSED'', ProcessExit 1]\<rparr>)"
  by (simp add: run_simps)

section \<open>The bounded executor\<close>



text \<open>
  C4. When the statement of an operation throws, \<open>executeSingleQuery\<close> returns the failure
  object with the row's id, the error's message and the row's own \<open>mdm_sql\<close>; it never
  rejects. \<open>executeAllQueries\<close> resolves whatever the store answers to the statements, every
  index of the input settles exactly once, with the success or the failure object of its own
  row, and the failed results are what is added to \<open>failedQueries\<close>. And a run of
  \<open>execute\<close> that handed any operation to the executor goes on to the summary.
\<close>

theorem operation_failure_is_contained:
  fixes x :: "'w QlikDeltaExecutor"
  shows
    "(\<forall>err w. query_sql S (mdm_sql q) (sequelize x) = (Some err, w) \<longrightarrow>
        executeSingleQuery S q x =
          (Inr \<lparr>res_invoice_line_id = invoice_line_id q, success = False,
                error = Some (message err), res_mdm_sql = Some (mdm_sql q)\<rparr>,
           x\<lparr>sequelize := w\<rparr>)) \<and>
     (\<exists>r x'. executeSingleQuery S q x = (Inr r, x')) \<and>
     (case executeAllQueries S sched allQueries x of (r, x') \<Rightarrow>
        r = Inr () \<and>
        mset (map fst (settled (since x x'))) = mset [0..<length allQueries] \<and>
        (\<forall>(i, res) \<in> set (settled (since x x')).
           i < length allQueries \<and> is_outcome_of (allQueries ! i) res) \<and>
        failedQueries x' =
          failedQueries x @ map snd (filter (\<lambda>(i, res). \<not> success res) (settled (since x x')))) \<and>
     (case execute S sched x of (out, x') \<Rightarrow>
        started (since x x') \<noteq> [] \<longrightarrow> summaries (since x x') \<noteq> [])"
proof (intro conjI)
  show "\<forall>err w. query_sql S (mdm_sql q) (sequelize x) = (Some err, w) \<longrightarrow>
        executeSingleQuery S q x =
          (Inr \<lparr>res_invoice_line_id = invoice_line_id q, success = False,
                error = Some (message err), res_mdm_sql = Some (mdm_sql q)\<rparr>,
           x\<lparr>sequelize := w\<rparr>)"
    by (simp add: executeSingleQuery_def)
next
  show "\<exists>r x'. executeSingleQuery S q x = (Inr r, x')"
    using executeSingleQuery_Inr[of S q x] by blast
next
  from executeAllQueries_effect[of S sched allQueries x]
  show "case executeAllQueries S sched allQueries x of (r, x') \<Rightarrow>
        r = Inr () \<and>
        mset (map fst (settled (since x x'))) = mset [0..<length allQueries] \<and>
        (\<forall>(i, res) \<in> set (settled (since x x')).
           i < length allQueries \<and> is_outcome_of (allQueries ! i) res) \<and>
        failedQueries x' =
          failedQueries x @ map snd (filter (\<lambda>(i, res). \<not> success res) (settled (since x x')))"
  proof (elim exE conjE)
    fix x1 :: "'w QlikDeltaExecutor" and tr
    let ?ok = "length (filter (\<lambda>(i, r). success r) (settled tr))"
    let ?x' = "x1\<lparr>trace := trace x @ tr @ [LogAllProcessed ?ok (length (failedQueries x1))]\<rparr>"
    assume e: "executeAllQueries S sched allQueries x = (Inr (), ?x')"
      and tr: "mset (map fst (settled tr)) = mset [0..<length allQueries]"
        "\<forall>(i, r) \<in> set (settled tr). i < length allQueries \<and> is_outcome_of (allQueries ! i) r"
        "failedQueries x1 =
           failedQueries x @ map snd (filter (\<lambda>(i, r). \<not> success r) (settled tr))"
    have st: "settled (since x ?x') = settled tr"
      by (simp add: since_def)
    show ?thesis
      unfolding e prod.case st using tr by simp
  qed
next
  show "case execute S sched x of (out, x') \<Rightarrow>
        started (since x x') \<noteq> [] \<longrightarrow> summaries (since x x') \<noteq> []"
  proof (cases rule: execute_paths[of S sched x])
    case (auth_thrown e x')
    then show ?thesis by simp
  next
    case (fetch_thrown e x')
    then show ?thesis by simp
  next
    case (guard_thrown e x' g)
    then show ?thesis using guard_thrown_facts(2)[OF guard_thrown(4)] by simp
  next
    case (no_queries out x' g)
    then show ?thesis using guard_step_facts(1)[of x g] by simp
  next
    case (ran out x' g qs m tr a b R E)
    have "summaries R \<noteq> []"
      using ran(11,12) by (cases "failedQueries x' = []") auto
    then show ?thesis by (simp add: ran(1,3))
  qed
qed

text \<open>The theorem at work on the row of the in-memory store whose statement throws.\<close>

theorem operation_failure_is_contained_witness:
  "query_sql mem_store
     (mdm_sql \<lparr>invoice_line_id = ''L2'', mdm_invoice_id = None, mdm_sql = ''!insert 2''\<rparr>)
     (sequelize (constructor Undefined mem1)) = (Some (Error ''constraint violated''), mem1) \<and>
   executeSingleQuery mem_store
     \<lparr>invoice_line_id = ''L2'', mdm_invoice_id = None, mdm_sql = ''!insert 2''\<rparr>
     (constructor Undefined mem1) =
     (Inr \<lparr>res_invoice_line_id = ''L2'', success = False,
           error = Some ''constraint violated'', res_mdm_sql = Some ''!insert 2''\<rparr>,
      (constructor Undefined mem1)\<lparr>sequelize := mem1\<rparr>) \<and>
   started (since (constructor Undefined mem1)
                  (snd (execute mem_store [] (constructor Undefined mem1)))) \<noteq> [] \<and>
   summaries (since (constructor Undefined mem1)
                    (snd (execute mem_store [] (constructor Undefined mem1)))) \<noteq> []"
proof -
  let ?x = "constructor Undefined mem1 :: mem QlikDeltaExecutor"
  let ?q = "\<lparr>invoice_line_id = ''L2'', mdm_invoice_id = None, mdm_sql = ''!insert 2''\<rparr>"
  have h1: "query_sql mem_store (mdm_sql ?q) (sequelize ?x) =
              (Some (Error ''constraint violated''), mem1)"
    by (simp add: mem_store_def constructor_fields)
  have h2: "started (since ?x (snd (execute mem_store [] ?x))) \<noteq> []"
    by (simp add: run_one_failing_row since_def constructor_fields)
  note t = operation_failure_is_contained[where S = mem_store and sched = "[]" and x = ?x
      and q = ?q and allQueries = "[]", unfolded case_prod_unfold]
  have c1: "executeSingleQuery mem_store ?q ?x =
     (Inr \<lparr>res_invoice_line_id = ''L2'', success = False,
           error = Some ''constraint violated'', res_mdm_sql = Some ''!insert 2''\<rparr>,
      ?x\<lparr>sequelize := mem1\<rparr>)"
    using t[THEN conjunct1, rule_format, OF h1] by simp
  have c2: "summaries (since ?x (snd (execute mem_store [] ?x))) \<noteq> []"
    using t[THEN conjunct2, THEN conjunct2, THEN conjunct2, rule_format, OF h2] .
  show ?thesis by (intro conjI h1 c1 h2 c2)
qed

text \<open>
  C8. For every limit of at least 1, every input, store and schedule, the pool with the
  iteratee of \<open>executeAllQueries\<close> ends without an error and at no point of its history are
  more than the limit of operations in flight, an operation being in flight from the call of
  the iteratee to the run of its \<open>.then\<close> callback. \<open>executeAllQueries\<close> runs the pool with the
  constant \<open>CONCURRENCY_LIMIT\<close>, which is 500 and so lies between 200 and 500.
\<close>

theorem in_flight_never_exceeds_limit:
  fixes x :: "'w QlikDeltaExecutor"
  assumes "1 \<le> L"
  shows
    "(case eachOfLimit allQueries L iteratee_start (iteratee_settle S (length allQueries)) sched
             (x, 0, 0) of
        (e, x', processedCount, successCount) \<Rightarrow>
          e = None \<and> (\<forall>k \<le> length (since x x'). in_flight (take k (since x x')) \<le> int L)) \<and>
     (case executeAllQueries S sched allQueries x of
        (r, x') \<Rightarrow>
          \<forall>k \<le> length (since x x'). in_flight (take k (since x x')) \<le> int CONCURRENCY_LIMIT) \<and>
     200 \<le> CONCURRENCY_LIMIT \<and> CONCURRENCY_LIMIT \<le> 500"
proof (intro conjI)
  have L: "0 < L" using assms by simp
  from eachOfLimit_pool[OF L, of allQueries S sched x]
  obtain s where s:
    "eachOfLimit allQueries L iteratee_start (iteratee_settle S (length allQueries)) sched (x, 0, 0)
       = (None, s)"
    "pool_inv allQueries L x [] [] s"
    by (elim exE conjE)
  obtain x' pc sc where s': "s = (x', pc, sc)" by (cases s) auto
  from pool_inv_final[OF s(2)[unfolded s']]
  show "case eachOfLimit allQueries L iteratee_start (iteratee_settle S (length allQueries)) sched
             (x, 0, 0) of
        (e, x', processedCount, successCount) \<Rightarrow>
          e = None \<and> (\<forall>k \<le> length (since x x'). in_flight (take k (since x x')) \<le> int L)"
  proof (elim exE conjE)
    fix tr
    assume "trace x' = trace x @ tr" "\<forall>k \<le> length tr. in_flight (take k tr) \<le> int L"
    then show ?thesis
      unfolding s(1) s' prod.case by (simp add: since_def)
  qed
next
  from executeAllQueries_effect[of S sched allQueries x]
  show "case executeAllQueries S sched allQueries x of
        (r, x') \<Rightarrow>
          \<forall>k \<le> length (since x x'). in_flight (take k (since x x')) \<le> int CONCURRENCY_LIMIT"
  proof (elim exE conjE)
    fix x1 :: "'w QlikDeltaExecutor" and tr
    let ?ok = "length (filter (\<lambda>(i, r). success r) (settled tr))"
    let ?e = "LogAllProcessed ?ok (length (failedQueries x1))"
    let ?x' = "x1\<lparr>trace := trace x @ tr @ [?e]\<rparr>"
    assume e: "executeAllQueries S sched allQueries x = (Inr (), ?x')"
      and b: "\<forall>k \<le> length tr. in_flight (take k tr) \<le> int CONCURRENCY_LIMIT"
    have "in_flight tr \<le> int CONCURRENCY_LIMIT" using b by (metis order_refl take_all)
    then have "in_flight (tr @ [?e]) \<le> int CONCURRENCY_LIMIT" by simp
    then have "\<forall>k \<le> length (tr @ [?e]). in_flight (take k (tr @ [?e])) \<le> int CONCURRENCY_LIMIT"
      by (rule prefixes_snoc[OF b])
    moreover have "since x ?x' = tr @ [?e]" by (simp add: since_def)
    ultimately show ?thesis
      unfolding e prod.case by simp
  qed
next
  show "200 \<le> CONCURRENCY_LIMIT" "CONCURRENCY_LIMIT \<le> 500"
    by (simp_all add: CONCURRENCY_LIMIT_def)
qed

text \<open>The theorem at a limit of 2, on the three rows of the in-memory store.\<close>

theorem in_flight_never_exceeds_limit_witness:
  "(1 :: nat) \<le> 2 \<and>
   (case eachOfLimit (delta mem0) 2 iteratee_start
           (iteratee_settle mem_store (length (delta mem0))) [1, 0]
           (constructor Undefined mem0, 0, 0) of
      (e, x', processedCount, successCount) \<Rightarrow>
        e = None \<and>
        (\<forall>k \<le> length (since (constructor Undefined mem0) x').
            in_flight (take k (since (constructor Undefined mem0) x')) \<le> int 2)) \<and>
   (case executeAllQueries mem_store [1, 0] (delta mem0) (constructor Undefined mem0) of
      (r, x') \<Rightarrow>
        \<forall>k \<le> length (since (constructor Undefined mem0) x').
           in_flight (take k (since (constructor Undefined mem0) x')) \<le> int CONCURRENCY_LIMIT) \<and>
   200 \<le> CONCURRENCY_LIMIT \<and> CONCURRENCY_LIMIT \<le> 500"
proof -
  have h: "(1 :: nat) \<le> 2" by simp
  from h in_flight_never_exceeds_limit[where L = 2 and allQueries = "delta mem0"
      and S = mem_store and sched = "[1, 0]" and x = "constructor Undefined mem0", OF h]
  show ?thesis by (rule conjI)
qed

section \<open>The safe-delete pass\<close>

text \<open>
  C2. In every run of \<open>execute\<close>, for every store and schedule: wherever the history shows an
  operation handed to the executor, the part of the history before it holds the completion
  of the safe-delete pass when the instance has \<open>safeDelete\<close> set, and the line saying the pass
  is disabled by configuration when it has not. And when the pass was begun and did not
  complete, that is, it threw, the run ends in \<open>process.exit(1)\<close> and no operation was
  handed to the executor. The last part says what completion means: one call of the pass
  returns normally exactly when its history holds a completion line.
\<close>

theorem safe_delete_before_operations:
  fixes x y :: "'w QlikDeltaExecutor"
  shows
    "(case execute S sched x of (out, x') \<Rightarrow>
       (\<forall>pre i q post. since x x' = pre @ Started i q # post \<longrightarrow>
          (if safeDelete x then guard_done pre else LogSafeDeleteDisabled \<in> set pre)) \<and>
       (safeDelete x \<and> SelectToRemove \<in> set (since x x') \<and> \<not> guard_done (since x x') \<longrightarrow>
          out = Exited 1 \<and> started (since x x') = [])) \<and>
     (case safeDeleteChangedInvoiceRows S y of (r, y') \<Rightarrow>
        (\<exists>v. r = Inr v) = guard_done (since y y'))"
proof (rule conjI)
  show "case safeDeleteChangedInvoiceRows S y of (r, y') \<Rightarrow>
        (\<exists>v. r = Inr v) = guard_done (since y y')"
    by (cases rule: safeDeleteChangedInvoiceRows_cases[of S y])
       (auto simp: since_def guard_done_def)
next
  show "case execute S sched x of (out, x') \<Rightarrow>
       (\<forall>pre i q post. since x x' = pre @ Started i q # post \<longrightarrow>
          (if safeDelete x then guard_done pre else LogSafeDeleteDisabled \<in> set pre)) \<and>
       (safeDelete x \<and> SelectToRemove \<in> set (since x x') \<and> \<not> guard_done (since x x') \<longrightarrow>
          out = Exited 1 \<and> started (since x x') = [])"
  proof (cases rule: execute_paths[of S sched x])
    case (auth_thrown e x')
    have "started (since x x') = []" "SelectToRemove \<notin> set (since x x')"
      by (simp_all add: auth_thrown(2))
    then show ?thesis
      unfolding auth_thrown(1) prod.case using started_in_split by blast
  next
    case (fetch_thrown e x')
    have "started (since x x') = []" "SelectToRemove \<notin> set (since x x')"
      by (simp_all add: fetch_thrown(2))
    then show ?thesis
      unfolding fetch_thrown(1) prod.case using started_in_split by blast
  next
    case (guard_thrown e x' g)
    have "started (since x x') = []"
      using guard_thrown_facts(2)[OF guard_thrown(4)] by (simp add: guard_thrown(3))
    then show ?thesis
      unfolding guard_thrown(1) prod.case using started_in_split by blast
  next
    case (no_queries out x' g)
    note g = guard_step_facts[of x g, OF no_queries(5,6)]
    have s: "started (since x x') = []"
      using g(1) by (simp add: no_queries(3))
    have d: "safeDelete x \<Longrightarrow> guard_done (since x x')"
      using g(6) by (simp add: no_queries(3))
    show ?thesis
      unfolding no_queries(1) prod.case using started_in_split s d by blast
  next
    case (ran out x' g qs m tr a b R E)
    note g = guard_step_facts[of x g, OF ran(4,5)]
    let ?H = "[Authenticate, SelectDelta] @ g @ [LogTotalQueries (length qs) m]"
    let ?rest = "tr @ [LogAllProcessed a b] @ R @ E"
    have T: "since x x' = ?H @ ?rest" by (simp add: ran(3))
    have sH: "started ?H = []" using g(1) by simp
    have gH: "if safeDelete x then guard_done ?H else LogSafeDeleteDisabled \<in> set ?H"
      using g(6) by simp
    have d: "safeDelete x \<Longrightarrow> guard_done (since x x')"
      using gH by (simp add: T)
    have first: "if safeDelete x then guard_done pre else LogSafeDeleteDisabled \<in> set pre"
      if "since x x' = pre @ Started i q # post" for pre i q post
    proof -
      from that T have "?H @ ?rest = pre @ Started i q # post" by simp
      from first_started_after[OF this sH] obtain pre' where "pre = ?H @ pre'" by blast
      with gH show ?thesis by (cases "safeDelete x") auto
    qed
    show ?thesis
      unfolding ran(1) prod.case using first d by blast
  qed
qed

text \<open>
  The theorem at work on two runs over the in-memory store: one that reaches the executor,
  where the history before the first operation holds the completion of the pass, and one
  where the \<open>UPDATE\<close> of the pass throws.
\<close>

theorem safe_delete_before_operations_witness:
  "since (constructor Undefined mem1) (snd (execute mem_store [] (constructor Undefined mem1))) =
     [Authenticate, SelectDelta, SelectToRemove,
      UpdateDeletedAt [CHR 0x27, CHR ''A'', CHR 0x27], LogMarkedDeleted 1, LogTotalQueries 1 1] @
     Started 0 \<lparr>invoice_line_id = ''L2'', mdm_invoice_id = None, mdm_sql = ''!insert 2''\<rparr> #
     [Settled 0 \<lparr>res_invoice_line_id = ''L2'', success = False,
                 error = Some ''constraint violated'', res_mdm_sql = Some ''!insert 2''\<rparr>,
      LogProgress 1 1 0 1, LogAllProcessed 0 1, LogSummary 1 0 1,
      WriteFileSync ''failed_queries_2024-09-30.json''
        [\<lparr>res_invoice_line_id = ''L2'', success = False,
          error = Some ''constraint violated'', res_mdm_sql = Some ''!insert 2''\<rparr>],
      Close] \<and>
   guard_done [Authenticate, SelectDelta, SelectToRemove,
      UpdateDeletedAt [CHR 0x27, CHR ''A'', CHR 0x27], LogMarkedDeleted 1, LogTotalQueries 1 1] \<and>
   safeDelete (constructor Undefined mem1 :: mem QlikDeltaExecutor) \<and>
   SelectToRemove \<in> set (since (constructor Undefined mem1)
                             (snd (execute update_fails_store [] (constructor Undefined mem1)))) \<and>
   \<not> guard_done (since (constructor Undefined mem1)
                      (snd (execute update_fails_store [] (constructor Undefined mem1)))) \<and>
   fst (execute update_fails_store [] (constructor Undefined mem1)) = Exited 1 \<and>
   started (since (constructor Undefined mem1)
                  (snd (execute update_fails_store [] (constructor Undefined mem1)))) = []"
proof -
  let ?x = "constructor Undefined mem1 :: mem QlikDeltaExecutor"
  let ?pre = "[Authenticate, SelectDelta, SelectToRemove,
      UpdateDeletedAt [CHR 0x27, CHR ''A'', CHR 0x27], LogMarkedDeleted 1, LogTotalQueries 1 1]"
  have sd: "safeDelete ?x" by (simp add: constructor_fields)
  have h1: "since ?x (snd (execute mem_store [] ?x)) =
     ?pre @
     Started 0 \<lparr>invoice_line_id = ''L2'', mdm_invoice_id = None, mdm_sql = ''!insert 2''\<rparr> #
     [Settled 0 \<lparr>res_invoice_line_id = ''L2'', success = False,
                 error = Some ''constraint violated'', res_mdm_sql = Some ''!insert 2''\<rparr>,
      LogProgress 1 1 0 1, LogAllProcessed 0 1, LogSummary 1 0 1,
      WriteFileSync ''failed_queries_2024-09-30.json''
        [\<lparr>res_invoice_line_id = ''L2'', success = False,
          error = Some ''constraint violated'', res_mdm_sql = Some ''!insert 2''\<rparr>],
      Close]"
    by (simp add: run_one_failing_row since_def constructor_fields)
  have h2: "SelectToRemove \<in> set (since ?x (snd (execute update_fails_store [] ?x)))"
    and h3: "\<not> guard_done (since ?x (snd (execute update_fails_store [] ?x)))"
    by (simp_all add: run_update_fails since_def constructor_fields)
  note t1 = safe_delete_before_operations[where S = mem_store and sched = "[]" and x = ?x
      and y = ?x, unfolded case_prod_unfold, THEN conjunct1, THEN conjunct1, rule_format, OF h1]
  note t2 = safe_delete_before_operations[where S = update_fails_store and sched = "[]"
      and x = ?x and y = ?x, unfolded case_prod_unfold, THEN conjunct1, THEN conjunct2,
      rule_format, OF conjI[OF sd conjI[OF h2 h3]]]
  have c1: "guard_done ?pre" using t1 sd by simp
  show ?thesis
    by (intro conjI h1 c1 sd h2 h3 t2[THEN conjunct1] t2[THEN conjunct2])
qed

text \<open>
  C3, as the code has it. \<open>safeDeleteChangedInvoiceRows\<close> returns \<open>true\<close>, never a count,
  whenever it returns. With no row in \<open>mdm_invoice_line_to_remove_qlik\<close> it sends nothing
  but the \<open>SELECT\<close>, logs that there is nothing to delete and returns \<open>true\<close> without
  an error. With rows it sends one \<open>UPDATE\<close> whose \<open>IN\<close> list holds the id of every
  row read, logs the number of rows read and returns \<open>true\<close>.
\<close>

theorem safeDelete_returns_true:
  fixes x :: "'w QlikDeltaExecutor"
  shows
    "(\<forall>v x'. safeDeleteChangedInvoiceRows S x = (Inr v, x') \<longrightarrow> v = Boolean True) \<and>
     (\<forall>w. query_to_remove S (sequelize x) = (Inr [], w) \<longrightarrow>
        safeDeleteChangedInvoiceRows S x =
          (Inr (Boolean True),
           x\<lparr>sequelize := w, trace := trace x @ [SelectToRemove, LogNoRowsToDelete]\<rparr>)) \<and>
     (\<forall>rs w w'. rs \<noteq> [] \<and> query_to_remove S (sequelize x) = (Inr rs, w) \<and>
                query_update S rs w = (None, w') \<longrightarrow>
        safeDeleteChangedInvoiceRows S x =
          (Inr (Boolean True),
           x\<lparr>sequelize := w',
             trace := trace x @ [SelectToRemove, UpdateDeletedAt (in_list rs),
                                 LogMarkedDeleted (length rs)]\<rparr>))"
proof (intro conjI allI impI)
  fix v x'
  assume "safeDeleteChangedInvoiceRows S x = (Inr v, x')"
  then show "v = Boolean True"
    by (cases rule: safeDeleteChangedInvoiceRows_cases[of S x]) auto
next
  fix w
  assume "query_to_remove S (sequelize x) = (Inr [], w)"
  then show "safeDeleteChangedInvoiceRows S x =
          (Inr (Boolean True),
           x\<lparr>sequelize := w, trace := trace x @ [SelectToRemove, LogNoRowsToDelete]\<rparr>)"
    by (cases rule: safeDeleteChangedInvoiceRows_cases[of S x]) auto
next
  fix rs w w'
  assume "rs \<noteq> [] \<and> query_to_remove S (sequelize x) = (Inr rs, w) \<and>
          query_update S rs w = (None, w')"
  then show "safeDeleteChangedInvoiceRows S x =
          (Inr (Boolean True),
           x\<lparr>sequelize := w',
             trace := trace x @ [SelectToRemove, UpdateDeletedAt (in_list rs),
                                 LogMarkedDeleted (length rs)]\<rparr>)"
    by (cases rule: safeDeleteChangedInvoiceRows_cases[of S x]) auto
qed

text \<open>The theorem at work on the in-memory store, with one marker and with none.\<close>

theorem safeDelete_returns_true_witness:
  "query_to_remove mem_store (sequelize (constructor Undefined (mem0\<lparr>to_remove := []\<rparr>))) =
     (Inr [], mem0\<lparr>to_remove := []\<rparr>) \<and>
   safeDeleteChangedInvoiceRows mem_store (constructor Undefined (mem0\<lparr>to_remove := []\<rparr>)) =
     (Inr (Boolean True),
      (constructor Undefined (mem0\<lparr>to_remove := []\<rparr>))
        \<lparr>sequelize := mem0\<lparr>to_remove := []\<rparr>,
         trace := [ConnectDB, SelectToRemove, LogNoRowsToDelete]\<rparr>) \<and>
   query_to_remove mem_store (sequelize (constructor Undefined mem0)) = (Inr [Some ''A''], mem0) \<and>
   query_update mem_store [Some ''A''] mem0 =
     (None, mem0\<lparr>invoice_qlik := [(''A'', Some 7), (''B'', None)], now := 8\<rparr>) \<and>
   safeDeleteChangedInvoiceRows mem_store (constructor Undefined mem0) =
     (Inr (Boolean True),
      (constructor Undefined mem0)
        \<lparr>sequelize := mem0\<lparr>invoice_qlik := [(''A'', Some 7), (''B'', None)], now := 8\<rparr>,
         trace := [ConnectDB, SelectToRemove, UpdateDeletedAt [CHR 0x27, CHR ''A'', CHR 0x27],
                   LogMarkedDeleted 1]\<rparr>)"
proof -
  let ?e = "mem0\<lparr>to_remove := []\<rparr>"
  let ?u = "mem0\<lparr>invoice_qlik := [(''A'', Some 7), (''B'', None)], now := 8\<rparr>"
  have h1: "query_to_remove mem_store (sequelize (constructor Undefined ?e)) = (Inr [], ?e)"
    by (simp add: mem_store_def constructor_def mem0_def)
  have h2: "query_to_remove mem_store (sequelize (constructor Undefined mem0)) =
              (Inr [Some ''A''], mem0)"
    by (simp add: mem_store_def constructor_def mem0_def)
  have h3: "query_update mem_store [Some ''A''] mem0 = (None, ?u)"
    by (simp add: mem_store_def mem0_def)
  have t1: "trace (constructor Undefined ?e) = [ConnectDB]"
    and t2: "trace (constructor Undefined mem0) = [ConnectDB]"
    by (simp_all add: constructor_def)
  have l: "in_list [Some ''A''] = [CHR 0x27, CHR ''A'', CHR 0x27]"
    by (simp add: in_list_def)
  have c1: "safeDeleteChangedInvoiceRows mem_store (constructor Undefined ?e) =
     (Inr (Boolean True),
      (constructor Undefined ?e)\<lparr>sequelize := ?e,
         trace := [ConnectDB, SelectToRemove, LogNoRowsToDelete]\<rparr>)"
    using safeDelete_returns_true[of mem_store "constructor Undefined ?e",
        THEN conjunct2, THEN conjunct1, rule_format, OF h1]
    by (simp only: t1 append.simps)
  have c2: "safeDeleteChangedInvoiceRows mem_store (constructor Undefined mem0) =
     (Inr (Boolean True),
      (constructor Undefined mem0)\<lparr>sequelize := ?u,
         trace := [ConnectDB, SelectToRemove, UpdateDeletedAt [CHR 0x27, CHR ''A'', CHR 0x27],
                   LogMarkedDeleted 1]\<rparr>)"
    using safeDelete_returns_true[of mem_store "constructor Undefined mem0",
        THEN conjunct2, THEN conjunct2, rule_format, of "[Some ''A'']" mem0 ?u] h2 h3
    by (simp only: t2 l append.simps list.size not_Cons_self2 simp_thms One_nat_def
          add_0 list.distinct)
  show ?thesis
    by (intro conjI h1 h2 h3 c1 c2)
qed

text \<open>
  C3 as the spec states it fails: with an empty marker table the value returned is the
  boolean \<open>true\<close>, not the number 0; with one marker it is \<open>true\<close>, not the number 1.
\<close>

theorem safeDelete_returns_no_count:
  "fst (safeDeleteChangedInvoiceRows mem_store (constructor Undefined (mem0\<lparr>to_remove := []\<rparr>)))
     = Inr (Boolean True) \<and>
   fst (safeDeleteChangedInvoiceRows mem_store (constructor Undefined (mem0\<lparr>to_remove := []\<rparr>)))
     \<noteq> Inr (Number 0) \<and>
   fst (safeDeleteChangedInvoiceRows mem_store (constructor Undefined mem0)) = Inr (Boolean True) \<and>
   fst (safeDeleteChangedInvoiceRows mem_store (constructor Undefined mem0)) \<noteq> Inr (Number 1)"
  by (simp add: safeDeleteChangedInvoiceRows_def mem_store_def mem0_def constructor_def emit_def
        Let_def)

text \<open>
  C7, as the code has it. The pass reads the marker table and updates \<open>mdm_invoice_qlik\<close>;
  it sends no statement that removes a marker. So when the marker table reads the same on
  the second run as on the first (no marker added, none removed by anyone else), the second
  run repeats the first: the same \<open>SELECT\<close>, and for a non-empty table the same
  \<open>UPDATE\<close> over the same ids and the same number logged. It does nothing only when the
  table is empty.
\<close>

theorem safeDelete_twice_repeats:
  fixes x :: "'w QlikDeltaExecutor"
  assumes "safeDeleteChangedInvoiceRows S x = (Inr v, x1)"
    and "safeDeleteChangedInvoiceRows S x1 = (Inr v', x2)"
    and "fst (query_to_remove S (sequelize x1)) = fst (query_to_remove S (sequelize x))"
  shows "\<exists>rs. fst (query_to_remove S (sequelize x)) = Inr rs \<and>
           since x1 x2 = since x x1 \<and>
           since x1 x2 =
             (if rs = [] then [SelectToRemove, LogNoRowsToDelete]
              else [SelectToRemove, UpdateDeletedAt (in_list rs), LogMarkedDeleted (length rs)])"
proof -
  have run: "\<exists>rs. fst (query_to_remove S (sequelize y)) = Inr rs \<and>
           since y y' =
             (if rs = [] then [SelectToRemove, LogNoRowsToDelete]
              else [SelectToRemove, UpdateDeletedAt (in_list rs), LogMarkedDeleted (length rs)])"
    if "safeDeleteChangedInvoiceRows S y = (Inr u, y')" for y y' :: "'w QlikDeltaExecutor" and u
    using that
    by (cases rule: safeDeleteChangedInvoiceRows_cases[of S y]) (auto simp: since_def)
  from run[OF assms(1)] obtain rs where rs:
    "fst (query_to_remove S (sequelize x)) = Inr rs"
    "since x x1 =
       (if rs = [] then [SelectToRemove, LogNoRowsToDelete]
        else [SelectToRemove, UpdateDeletedAt (in_list rs), LogMarkedDeleted (length rs)])"
    by (elim exE conjE)
  from run[OF assms(2)] obtain rs' where rs':
    "fst (query_to_remove S (sequelize x1)) = Inr rs'"
    "since x1 x2 =
       (if rs' = [] then [SelectToRemove, LogNoRowsToDelete]
        else [SelectToRemove, UpdateDeletedAt (in_list rs'), LogMarkedDeleted (length rs')])"
    by (elim exE conjE)
  have "rs' = rs" using rs(1) rs'(1) assms(3) by simp
  then show ?thesis using rs rs'(2) by (intro exI[of _ rs]) simp
qed

text \<open>The theorem at work: two passes over the in-memory store with its one marker.\<close>

theorem safeDelete_twice_repeats_witness:
  "safeDeleteChangedInvoiceRows mem_store (constructor Undefined mem0) =
     (Inr (Boolean True),
      \<lparr>sequelize = mem0\<lparr>invoice_qlik := [(''A'', Some 7), (''B'', None)], now := 8\<rparr>,
       failedQueries = [], safeDelete = True,
       trace = [ConnectDB, SelectToRemove, UpdateDeletedAt [CHR 0x27, CHR ''A'', CHR 0x27],
                LogMarkedDeleted 1]\<rparr>) \<and>
   safeDeleteChangedInvoiceRows mem_store
     \<lparr>sequelize = mem0\<lparr>invoice_qlik := [(''A'', Some 7), (''B'', None)], now := 8\<rparr>,
      failedQueries = [], safeDelete = True,
      trace = [ConnectDB, SelectToRemove, UpdateDeletedAt [CHR 0x27, CHR ''A'', CHR 0x27],
               LogMarkedDeleted 1]\<rparr> =
     (Inr (Boolean True),
      \<lparr>sequelize = mem0\<lparr>invoice_qlik := [(''A'', Some 8), (''B'', None)], now := 9\<rparr>,
       failedQueries = [], safeDelete = True,
       trace = [ConnectDB, SelectToRemove, UpdateDeletedAt [CHR 0x27, CHR ''A'', CHR 0x27],
                LogMarkedDeleted 1,
                SelectToRemove, UpdateDeletedAt [CHR 0x27, CHR ''A'', CHR 0x27],
                LogMarkedDeleted 1]\<rparr>) \<and>
   (\<exists>rs. fst (query_to_remove mem_store (sequelize (constructor Undefined mem0))) = Inr rs \<and>
      since \<lparr>sequelize = mem0\<lparr>invoice_qlik := [(''A'', Some 7), (''B'', None)], now := 8\<rparr>,
             failedQueries = [], safeDelete = True,
             trace = [ConnectDB, SelectToRemove, UpdateDeletedAt [CHR 0x27, CHR ''A'', CHR 0x27],
                      LogMarkedDeleted 1]\<rparr>
            \<lparr>sequelize = mem0\<lparr>invoice_qlik := [(''A'', Some 8), (''B'', None)], now := 9\<rparr>,
             failedQueries = [], safeDelete = True,
             trace = [ConnectDB, SelectToRemove, UpdateDeletedAt [CHR 0x27, CHR ''A'', CHR 0x27],
                      LogMarkedDeleted 1,
                      SelectToRemove, UpdateDeletedAt [CHR 0x27, CHR ''A'', CHR 0x27],
                      LogMarkedDeleted 1]\<rparr> =
        (if rs = [] then [SelectToRemove, LogNoRowsToDelete]
         else [SelectToRemove, UpdateDeletedAt (in_list rs), LogMarkedDeleted (length rs)]))"
proof -
  let ?x = "constructor Undefined mem0 :: mem QlikDeltaExecutor"
  let ?x1 = "\<lparr>sequelize = mem0\<lparr>invoice_qlik := [(''A'', Some 7), (''B'', None)], now := 8\<rparr>,
       failedQueries = [], safeDelete = True,
       trace = [ConnectDB, SelectToRemove, UpdateDeletedAt [CHR 0x27, CHR ''A'', CHR 0x27],
                LogMarkedDeleted 1]\<rparr>"
  let ?x2 = "\<lparr>sequelize = mem0\<lparr>invoice_qlik := [(''A'', Some 8), (''B'', None)], now := 9\<rparr>,
       failedQueries = [], safeDelete = True,
       trace = [ConnectDB, SelectToRemove, UpdateDeletedAt [CHR 0x27, CHR ''A'', CHR 0x27],
                LogMarkedDeleted 1,
                SelectToRemove, UpdateDeletedAt [CHR 0x27, CHR ''A'', CHR 0x27],
                LogMarkedDeleted 1]\<rparr>"
  have h1: "safeDeleteChangedInvoiceRows mem_store ?x = (Inr (Boolean True), ?x1)"
    by (simp add: safeDeleteChangedInvoiceRows_def mem_store_def mem0_def constructor_def
          emit_def Let_def in_list_def)
  have h2: "safeDeleteChangedInvoiceRows mem_store ?x1 = (Inr (Boolean True), ?x2)"
    by (simp add: safeDeleteChangedInvoiceRows_def mem_store_def mem0_def emit_def Let_def
          in_list_def)
  have h3: "fst (query_to_remove mem_store (sequelize ?x1)) =
            fst (query_to_remove mem_store (sequelize ?x))"
    by (simp add: mem_store_def mem0_def constructor_def)
  from safeDelete_twice_repeats[OF h1 h2 h3]
  have "\<exists>rs. fst (query_to_remove mem_store (sequelize ?x)) = Inr rs \<and>
      since ?x1 ?x2 =
        (if rs = [] then [SelectToRemove, LogNoRowsToDelete]
         else [SelectToRemove, UpdateDeletedAt (in_list rs), LogMarkedDeleted (length rs)])"
    by (elim exE conjE) (rule exI, rule conjI)
  with h1 h2 show ?thesis by (intro conjI)
qed

text \<open>
  C7 as the spec states it fails. After a first pass over a store with the marker \<open>A\<close>, the
  marker is still in the table, and a second pass with nothing added in between sends the
  \<open>UPDATE\<close> for \<open>A\<close> again and logs one row marked, not none; the row's \<open>deleted_at\<close>
  moves from 7 to 8.
\<close>

theorem safeDelete_second_run_retires_again:
  "to_remove (sequelize (snd (safeDeleteChangedInvoiceRows mem_store (constructor Undefined mem0))))
     = [Some ''A''] \<and>
   since (snd (safeDeleteChangedInvoiceRows mem_store (constructor Undefined mem0)))
         (snd (safeDeleteChangedInvoiceRows mem_store
                (snd (safeDeleteChangedInvoiceRows mem_store (constructor Undefined mem0)))))
     = [SelectToRemove, UpdateDeletedAt [CHR 0x27, CHR ''A'', CHR 0x27], LogMarkedDeleted 1] \<and>
   invoice_qlik (sequelize (snd (safeDeleteChangedInvoiceRows mem_store
                                  (constructor Undefined mem0))))
     = [(''A'', Some 7), (''B'', None)] \<and>
   invoice_qlik (sequelize (snd (safeDeleteChangedInvoiceRows mem_store
                (snd (safeDeleteChangedInvoiceRows mem_store (constructor Undefined mem0))))))
     = [(''A'', Some 8), (''B'', None)]"
  by (simp add: safeDeleteChangedInvoiceRows_def mem_store_def mem0_def constructor_def
        emit_def Let_def in_list_def since_def)

section \<open>The report and the connection\<close>




text \<open>
  A run calls \<open>close()\<close> exactly when it does not end in \<open>process.exit\<close>; the one
  connection is the one the constructor made, a run never connects again.
\<close>

lemma execute_closes_iff_no_exit:
  fixes x :: "'w QlikDeltaExecutor"
  shows "case execute S sched x of (out, x') \<Rightarrow>
           (Close \<in> set (since x x')) = (out \<noteq> Exited 1) \<and> ConnectDB \<notin> set (since x x')"
proof (cases rule: execute_paths[of S sched x])
  case (auth_thrown e x')
  then show ?thesis by simp
next
  case (fetch_thrown e x')
  then show ?thesis by simp
next
  case (guard_thrown e x' g)
  then show ?thesis by auto
next
  case (no_queries out x' g)
  then show ?thesis by (cases "safeDelete x") auto
next
  case (ran out x' g qs m tr a b R E)
  have g: "Close \<notin> set g" "ConnectDB \<notin> set g"
    using ran(4,5) by (cases "safeDelete x"; auto)+
  have R: "Close \<notin> set R" "ConnectDB \<notin> set R"
    using ran(11,12) by (cases "failedQueries x' = []"; auto)+
  have E: "(Close \<in> set E) = (out \<noteq> Exited 1)" "ConnectDB \<notin> set E"
    using ran(13) by auto
  show ?thesis
    using g R E pool_events_no(3,4)[OF ran(6)] by (simp add: ran(1,3))
qed

text \<open>
  C9 fails on every run that throws inside the \<open>try\<close> block: the \<open>catch\<close> block calls
  \<open>process.exit(1)\<close>, which ends the process before the \<open>finally\<close> block can call
  \<open>sequelize.close()\<close>. Here the store cannot be reached: the run exits with status 1, its
  history ends with the exit and holds no \<open>Close\<close>, and the connection is left open.
\<close>

theorem execute_exits_without_closing:
  "fst (execute mem_store [] (constructor Undefined (mem0\<lparr>reachable := False\<rparr>))) = Exited 1 \<and>
   trace (snd (execute mem_store [] (constructor Undefined (mem0\<lparr>reachable := False\<rparr>)))) =
     [ConnectDB, Authenticate, LogError ''ECONNREFUSED'', ProcessExit 1] \<and>
   closed (sequelize (snd (execute mem_store []
                             (constructor Undefined (mem0\<lparr>reachable := False\<rparr>))))) = False"
  unfolding run_unreachable by (simp add: mem0_def)

section \<open>The command line\<close>

text \<open>
  C10. The instance the command line builds has \<open>safeDelete\<close> set exactly when
  \<open>process.argv[3]\<close> is absent or \<open>parseInt\<close> reads a nonzero integer from it in base 10. An
  argument from which \<open>parseInt\<close> reads nothing gives \<open>NaN\<close> and leaves \<open>safeDelete\<close> unset;
  this is so for every argument without a decimal digit, such as \<open>true\<close> and \<open>yes\<close>. With
  no argument \<open>safeDelete\<close> is set.
\<close>

theorem cli_safe_delete_flag:
  "(safeDelete (cli_executor argv w) =
      (argv_at argv 3 = None \<or>
       (\<exists>a n. argv_at argv 3 = Some a \<and> parseInt10 a = Some n \<and> n \<noteq> 0))) \<and>
   (\<forall>a. argv_at argv 3 = Some a \<and> parseInt10 a = None \<longrightarrow> \<not> safeDelete (cli_executor argv w)) \<and>
   (\<forall>a. argv_at argv 3 = Some a \<and> (\<forall>c \<in> set a. \<not> isDigit c) \<longrightarrow>
        parseInt10 a = None \<and> \<not> safeDelete (cli_executor argv w)) \<and>
   parseInt10 ''true'' = None \<and> parseInt10 ''yes'' = None \<and>
   \<not> safeDelete (cli_executor [''node'', ''execute_qlik_delta.js'', ''0'', ''true''] w) \<and>
   \<not> safeDelete (cli_executor [''node'', ''execute_qlik_delta.js'', ''0'', ''yes''] w) \<and>
   safeDelete (cli_executor [''node'', ''execute_qlik_delta.js''] w)"
proof -
  have iff: "safeDelete (cli_executor argv w) =
      (argv_at argv 3 = None \<or>
       (\<exists>a n. argv_at argv 3 = Some a \<and> parseInt10 a = Some n \<and> n \<noteq> 0))" for argv
    by (auto simp: cli_executor_def constructor_def safeDeleteFlag_def flag_def parseInt10_examples
             split: option.splits)
  have nan: "\<not> safeDelete (cli_executor argv w)"
    if "argv_at argv 3 = Some a" "parseInt10 a = None" for argv a
    using that by (simp add: iff)
  have ex: "\<not> safeDelete (cli_executor [''node'', ''execute_qlik_delta.js'', ''0'', ''true''] w)"
    "\<not> safeDelete (cli_executor [''node'', ''execute_qlik_delta.js'', ''0'', ''yes''] w)"
    "safeDelete (cli_executor [''node'', ''execute_qlik_delta.js''] w)"
    by (simp_all add: iff argv_at_def parseInt10_examples)
  show ?thesis
    using iff[of argv] nan[of argv] parseInt10_no_digit parseInt10_examples(1,2) ex
    by blast
qed

text \<open>The theorem at the command line \<open>node execute_qlik_delta.js 0 true\<close>.\<close>

theorem cli_safe_delete_flag_witness:
  "argv_at [''node'', ''execute_qlik_delta.js'', ''0'', ''true''] 3 = Some ''true'' \<and>
   parseInt10 ''true'' = None \<and>
   \<not> safeDelete (cli_executor [''node'', ''execute_qlik_delta.js'', ''0'', ''true''] mem0)"
proof -
  have h1: "argv_at [''node'', ''execute_qlik_delta.js'', ''0'', ''true''] 3 = Some ''true''"
    by (simp add: argv_at_def)
  have h2: "\<forall>c \<in> set ''true''. \<not> isDigit c"
    by (simp add: isDigit_def)
  note t = cli_safe_delete_flag[where argv = "[''node'', ''execute_qlik_delta.js'', ''0'', ''true'']"
      and w = mem0, THEN conjunct2, THEN conjunct2, THEN conjunct1, rule_format,
      OF conjI[OF h1 h2]]
  show ?thesis
    by (intro conjI h1 t[THEN conjunct1] t[THEN conjunct2])
qed

section \<open>The workflow script\<close>

text \<open>
  C5, as the code has it, for every machine, directory, month and state.

  The budget. \<open>run_cmd_with_retry\<close> runs the command once; when that attempt fails, it
  writes the first marker line, the output of the attempt and the second marker line at the
  end of the failure log, and runs the command a second time; when that attempt fails too,
  it writes the three entries of the second attempt, and returns 1 without a third attempt,
  \<open>max_attempts\<close> being 2. Each of the six writes succeeds or not as the machine decides:
  when the writes to the log succeed, the log has gained the entries, in order; a write that
  fails is lost, and the function goes on as if it had succeeded. No other log is touched.
  So a nonzero status means that both attempts failed, and then a log that can be written
  has gained the output of both.

  The month. In the body of the month loop, when the invoice file exists, both parts are
  run with the failure log of that month. When the first part returns a nonzero status, the
  body echoes that part 1 failed and ends: the state it leaves is the one the retries of
  the first part left, so that the second part, a different command, is not attempted; the
  log of that month, when it can be written, has gained the output of both attempts. When
  the second part returns a nonzero status, the body echoes that part 2 failed and ends.

  The loop. When the body of a month ends, the loop goes on with the next month, in the
  state the body left. The script exits inside the loop only in a month whose invoice file
  is missing and whose log cannot be written, with status 1; a part that has failed never
  ends it. So when the directory of the logs can be made, and every month has its invoice
  file or a log that can be written, the script announces every month of \<open>MONTHS\<close>, in
  order, echoes its closing line and exits with status 0, whatever the commands did.
\<close>

theorem retry_budget_then_next_month:
  fixes st :: "'v script"
  shows
    "(case bash_c sh cmd (sys st) of
        ((True, o1), v1) \<Rightarrow>
          run_cmd_with_retry sh cmd failfile st =
            (0, st\<lparr>sys := v1, stdout := stdout st @ [Attempt 1 cmd, CommandSucceeded 1]\<rparr>)
      | ((False, o1), v1) \<Rightarrow>
          (let st1 = appends sh failfile
                       [AttemptOutputBegin 1, AttemptOutput o1, AttemptOutputEnd 1]
                       (st\<lparr>sys := v1, stdout := stdout st @ [Attempt 1 cmd, CommandFailed 1]\<rparr>)
           in case bash_c sh cmd (sys st1) of
                ((True, o2), v2) \<Rightarrow>
                  run_cmd_with_retry sh cmd failfile st =
                    (0, st1\<lparr>sys := v2,
                            stdout := stdout st1 @ [Attempt 2 cmd, CommandSucceeded 2]\<rparr>)
              | ((False, o2), v2) \<Rightarrow>
                  run_cmd_with_retry sh cmd failfile st =
                    (1, appends sh failfile
                          [AttemptOutputBegin 2, AttemptOutput o2, AttemptOutputEnd 2]
                          (st1\<lparr>sys := v2,
                               stdout := stdout st1 @ [Attempt 2 cmd, CommandFailed 2]\<rparr>)))) \<and>
     max_attempts = 2 \<and>
     ((\<forall>v. fst (append_to sh failfile v)) \<longrightarrow>
        logs (appends sh failfile es st) failfile = logs st failfile @ es) \<and>
     ((\<forall>v. \<not> fst (append_to sh failfile v)) \<longrightarrow>
        logs (appends sh failfile es st) = logs st) \<and>
     (\<forall>file. file \<noteq> failfile \<longrightarrow> logs (appends sh failfile es st) file = logs st file) \<and>
     stdout (appends sh failfile es st) = stdout st \<and>
     ((\<forall>v. fst (append_to sh failfile v)) \<and>
      fst (run_cmd_with_retry sh cmd failfile st) \<noteq> 0 \<longrightarrow>
        (case bash_c sh cmd (sys st) of
           ((ok1, o1), v1) \<Rightarrow>
             (case bash_c sh cmd
                     (sys (appends sh failfile
                             [AttemptOutputBegin 1, AttemptOutput o1, AttemptOutputEnd 1]
                             (st\<lparr>sys := v1,
                                  stdout := stdout st @ [Attempt 1 cmd, CommandFailed 1]\<rparr>))) of
                ((ok2, o2), v2) \<Rightarrow>
                  \<not> ok1 \<and> \<not> ok2 \<and>
                  logs (snd (run_cmd_with_retry sh cmd failfile st)) failfile =
                    logs st failfile @
                    [AttemptOutputBegin 1, AttemptOutput o1, AttemptOutputEnd 1,
                     AttemptOutputBegin 2, AttemptOutput o2, AttemptOutputEnd 2] \<and>
                  stdout (snd (run_cmd_with_retry sh cmd failfile st)) =
                    stdout st @
                    [Attempt 1 cmd, CommandFailed 1, Attempt 2 cmd, CommandFailed 2]))) \<and>
     (is_file sh (INVOICE WORKDIR MM) (sys st) \<longrightarrow>
        (case run_cmd_with_retry sh (PART1 WORKDIR MM) (FAILFILE WORKDIR MM)
                (say (Processing MM) st) of
           (Suc n, st2) \<Rightarrow> month_body sh WORKDIR MM st = (None, say (Part1Failed MM) st2)
         | (0, st2) \<Rightarrow>
             (case run_cmd_with_retry sh (PART2 WORKDIR) (FAILFILE WORKDIR MM)
                     (say (Part1Succeeded MM) st2) of
                (Suc n, st3) \<Rightarrow> month_body sh WORKDIR MM st = (None, say (Part2Failed MM) st3)
              | (0, st3) \<Rightarrow>
                  month_body sh WORKDIR MM st =
                    (None, say (Completed MM) (say (Part2Succeeded MM) st3))))) \<and>
     (is_file sh (INVOICE WORKDIR MM) (sys st) \<and>
      (\<forall>v. fst (append_to sh (FAILFILE WORKDIR MM) v)) \<and>
      fst (run_cmd_with_retry sh (PART1 WORKDIR MM) (FAILFILE WORKDIR MM)
             (say (Processing MM) st)) \<noteq> 0 \<longrightarrow>
        (case bash_c sh (PART1 WORKDIR MM) (sys st) of
           ((ok1, o1), v1) \<Rightarrow>
             (case bash_c sh (PART1 WORKDIR MM)
                     (sys (appends sh (FAILFILE WORKDIR MM)
                             [AttemptOutputBegin 1, AttemptOutput o1, AttemptOutputEnd 1]
                             (st\<lparr>sys := v1,
                                  stdout := stdout st @
                                    [Processing MM, Attempt 1 (PART1 WORKDIR MM),
                                     CommandFailed 1]\<rparr>))) of
                ((ok2, o2), v2) \<Rightarrow>
                  \<not> ok1 \<and> \<not> ok2 \<and>
                  fst (month_body sh WORKDIR MM st) = None \<and>
                  logs (snd (month_body sh WORKDIR MM st)) (FAILFILE WORKDIR MM) =
                    logs st (FAILFILE WORKDIR MM) @
                    [AttemptOutputBegin 1, AttemptOutput o1, AttemptOutputEnd 1,
                     AttemptOutputBegin 2, AttemptOutput o2, AttemptOutputEnd 2] \<and>
                  stdout (snd (month_body sh WORKDIR MM st)) =
                    stdout st @
                    [Processing MM, Attempt 1 (PART1 WORKDIR MM), CommandFailed 1,
                     Attempt 2 (PART1 WORKDIR MM), CommandFailed 2, Part1Failed MM]))) \<and>
     PART1 WORKDIR MM \<noteq> PART2 WORKDIR \<and>
     (case month_body sh WORKDIR MM st of
        (None, st') \<Rightarrow> for_months sh WORKDIR (MM # MMs) st = for_months sh WORKDIR MMs st'
      | (Some status, st') \<Rightarrow>
          for_months sh WORKDIR (MM # MMs) st = (Some status, st') \<and> status = 1 \<and>
          \<not> is_file sh (INVOICE WORKDIR MM) (sys st) \<and>
          \<not> fst (append_to sh (FAILFILE WORKDIR MM) (sys st))) \<and>
     (case mkdir_p sh (FAILED_DIR WORKDIR) (sys st) of
        (False, v) \<Rightarrow> workflow sh WORKDIR st = (1, st\<lparr>sys := v\<rparr>)
      | (True, v) \<Rightarrow>
          (case for_months sh WORKDIR MONTHS (st\<lparr>sys := v\<rparr>) of
             (Some status, st') \<Rightarrow> workflow sh WORKDIR st = (status, st')
           | (None, st') \<Rightarrow>
               workflow sh WORKDIR st =
                 (0, st'\<lparr>stdout := stdout st' @ [AllMonthsProcessed]\<rparr>))) \<and>
     (fst (mkdir_p sh (FAILED_DIR WORKDIR) (sys st)) \<and>
      (\<forall>MM \<in> set MONTHS. \<forall>v. is_file sh (INVOICE WORKDIR MM) v \<or>
                                 fst (append_to sh (FAILFILE WORKDIR MM) v)) \<longrightarrow>
        fst (workflow sh WORKDIR st) = 0 \<and>
        processing (echoed st (snd (workflow sh WORKDIR st))) = MONTHS \<and>
        last (stdout (snd (workflow sh WORKDIR st))) = AllMonthsProcessed)"
proof (intro conjI)
  show "case bash_c sh cmd (sys st) of
        ((True, o1), v1) \<Rightarrow>
          run_cmd_with_retry sh cmd failfile st =
            (0, st\<lparr>sys := v1, stdout := stdout st @ [Attempt 1 cmd, CommandSucceeded 1]\<rparr>)
      | ((False, o1), v1) \<Rightarrow>
          (let st1 = appends sh failfile
                       [AttemptOutputBegin 1, AttemptOutput o1, AttemptOutputEnd 1]
                       (st\<lparr>sys := v1, stdout := stdout st @ [Attempt 1 cmd, CommandFailed 1]\<rparr>)
           in case bash_c sh cmd (sys st1) of
                ((True, o2), v2) \<Rightarrow>
                  run_cmd_with_retry sh cmd failfile st =
                    (0, st1\<lparr>sys := v2,
                            stdout := stdout st1 @ [Attempt 2 cmd, CommandSucceeded 2]\<rparr>)
              | ((False, o2), v2) \<Rightarrow>
                  run_cmd_with_retry sh cmd failfile st =
                    (1, appends sh failfile
                          [AttemptOutputBegin 2, AttemptOutput o2, AttemptOutputEnd 2]
                          (st1\<lparr>sys := v2,
                               stdout := stdout st1 @ [Attempt 2 cmd, CommandFailed 2]\<rparr>)))"
    by (rule run_cmd_with_retry_unrolled)
next
  show "max_attempts = 2" by (simp add: max_attempts_def)
next
  show "(\<forall>v. fst (append_to sh failfile v)) \<longrightarrow>
        logs (appends sh failfile es st) failfile = logs st failfile @ es"
    by (intro impI logs_appends_written)
next
  show "(\<forall>v. \<not> fst (append_to sh failfile v)) \<longrightarrow>
        logs (appends sh failfile es st) = logs st"
    by (intro impI logs_appends_lost)
next
  show "\<forall>file. file \<noteq> failfile \<longrightarrow> logs (appends sh failfile es st) file = logs st file"
    by (intro allI impI logs_appends_other)
next
  show "stdout (appends sh failfile es st) = stdout st" by simp
next
  show "(\<forall>v. fst (append_to sh failfile v)) \<and>
      fst (run_cmd_with_retry sh cmd failfile st) \<noteq> 0 \<longrightarrow>
        (case bash_c sh cmd (sys st) of
           ((ok1, o1), v1) \<Rightarrow>
             (case bash_c sh cmd
                     (sys (appends sh failfile
                             [AttemptOutputBegin 1, AttemptOutput o1, AttemptOutputEnd 1]
                             (st\<lparr>sys := v1,
                                  stdout := stdout st @ [Attempt 1 cmd, CommandFailed 1]\<rparr>))) of
                ((ok2, o2), v2) \<Rightarrow>
                  \<not> ok1 \<and> \<not> ok2 \<and>
                  logs (snd (run_cmd_with_retry sh cmd failfile st)) failfile =
                    logs st failfile @
                    [AttemptOutputBegin 1, AttemptOutput o1, AttemptOutputEnd 1,
                     AttemptOutputBegin 2, AttemptOutput o2, AttemptOutputEnd 2] \<and>
                  stdout (snd (run_cmd_with_retry sh cmd failfile st)) =
                    stdout st @
                    [Attempt 1 cmd, CommandFailed 1, Attempt 2 cmd, CommandFailed 2]))"
  proof (intro impI, elim conjE)
    assume "\<forall>v. fst (append_to sh failfile v)"
      and "fst (run_cmd_with_retry sh cmd failfile st) \<noteq> 0"
    then show "case bash_c sh cmd (sys st) of
           ((ok1, o1), v1) \<Rightarrow>
             (case bash_c sh cmd
                     (sys (appends sh failfile
                             [AttemptOutputBegin 1, AttemptOutput o1, AttemptOutputEnd 1]
                             (st\<lparr>sys := v1,
                                  stdout := stdout st @ [Attempt 1 cmd, CommandFailed 1]\<rparr>))) of
                ((ok2, o2), v2) \<Rightarrow>
                  \<not> ok1 \<and> \<not> ok2 \<and>
                  logs (snd (run_cmd_with_retry sh cmd failfile st)) failfile =
                    logs st failfile @
                    [AttemptOutputBegin 1, AttemptOutput o1, AttemptOutputEnd 1,
                     AttemptOutputBegin 2, AttemptOutput o2, AttemptOutputEnd 2] \<and>
                  stdout (snd (run_cmd_with_retry sh cmd failfile st)) =
                    stdout st @
                    [Attempt 1 cmd, CommandFailed 1, Attempt 2 cmd, CommandFailed 2])"
      by (rule run_cmd_with_retry_exhausted_log)
  qed
next
  show "is_file sh (INVOICE WORKDIR MM) (sys st) \<longrightarrow>
        (case run_cmd_with_retry sh (PART1 WORKDIR MM) (FAILFILE WORKDIR MM)
                (say (Processing MM) st) of
           (Suc n, st2) \<Rightarrow> month_body sh WORKDIR MM st = (None, say (Part1Failed MM) st2)
         | (0, st2) \<Rightarrow>
             (case run_cmd_with_retry sh (PART2 WORKDIR) (FAILFILE WORKDIR MM)
                     (say (Part1Succeeded MM) st2) of
                (Suc n, st3) \<Rightarrow> month_body sh WORKDIR MM st = (None, say (Part2Failed MM) st3)
              | (0, st3) \<Rightarrow>
                  month_body sh WORKDIR MM st =
                    (None, say (Completed MM) (say (Part2Succeeded MM) st3))))"
    by (intro impI month_body_present)
next
  show "is_file sh (INVOICE WORKDIR MM) (sys st) \<and>
      (\<forall>v. fst (append_to sh (FAILFILE WORKDIR MM) v)) \<and>
      fst (run_cmd_with_retry sh (PART1 WORKDIR MM) (FAILFILE WORKDIR MM)
             (say (Processing MM) st)) \<noteq> 0 \<longrightarrow>
        (case bash_c sh (PART1 WORKDIR MM) (sys st) of
           ((ok1, o1), v1) \<Rightarrow>
             (case bash_c sh (PART1 WORKDIR MM)
                     (sys (appends sh (FAILFILE WORKDIR MM)
                             [AttemptOutputBegin 1, AttemptOutput o1, AttemptOutputEnd 1]
                             (st\<lparr>sys := v1,
                                  stdout := stdout st @
                                    [Processing MM, Attempt 1 (PART1 WORKDIR MM),
                                     CommandFailed 1]\<rparr>))) of
                ((ok2, o2), v2) \<Rightarrow>
                  \<not> ok1 \<and> \<not> ok2 \<and>
                  fst (month_body sh WORKDIR MM st) = None \<and>
                  logs (snd (month_body sh WORKDIR MM st)) (FAILFILE WORKDIR MM) =
                    logs st (FAILFILE WORKDIR MM) @
                    [AttemptOutputBegin 1, AttemptOutput o1, AttemptOutputEnd 1,
                     AttemptOutputBegin 2, AttemptOutput o2, AttemptOutputEnd 2] \<and>
                  stdout (snd (month_body sh WORKDIR MM st)) =
                    stdout st @
                    [Processing MM, Attempt 1 (PART1 WORKDIR MM), CommandFailed 1,
                     Attempt 2 (PART1 WORKDIR MM), CommandFailed 2, Part1Failed MM]))"
  proof (intro impI, elim conjE)
    assume "is_file sh (INVOICE WORKDIR MM) (sys st)"
      and "\<forall>v. fst (append_to sh (FAILFILE WORKDIR MM) v)"
      and "fst (run_cmd_with_retry sh (PART1 WORKDIR MM) (FAILFILE WORKDIR MM)
             (say (Processing MM) st)) \<noteq> 0"
    then show "case bash_c sh (PART1 WORKDIR MM) (sys st) of
           ((ok1, o1), v1) \<Rightarrow>
             (case bash_c sh (PART1 WORKDIR MM)
                     (sys (appends sh (FAILFILE WORKDIR MM)
                             [AttemptOutputBegin 1, AttemptOutput o1, AttemptOutputEnd 1]
                             (st\<lparr>sys := v1,
                                  stdout := stdout st @
                                    [Processing MM, Attempt 1 (PART1 WORKDIR MM),
                                     CommandFailed 1]\<rparr>))) of
                ((ok2, o2), v2) \<Rightarrow>
                  \<not> ok1 \<and> \<not> ok2 \<and>
                  fst (month_body sh WORKDIR MM st) = None \<and>
                  logs (snd (month_body sh WORKDIR MM st)) (FAILFILE WORKDIR MM) =
                    logs st (FAILFILE WORKDIR MM) @
                    [AttemptOutputBegin 1, AttemptOutput o1, AttemptOutputEnd 1,
                     AttemptOutputBegin 2, AttemptOutput o2, AttemptOutputEnd 2] \<and>
                  stdout (snd (month_body sh WORKDIR MM st)) =
                    stdout st @
                    [Processing MM, Attempt 1 (PART1 WORKDIR MM), CommandFailed 1,
                     Attempt 2 (PART1 WORKDIR MM), CommandFailed 2, Part1Failed MM])"
      by (rule month_body_part1_exhausted)
  qed
next
  show "PART1 WORKDIR MM \<noteq> PART2 WORKDIR" by (rule PART1_neq_PART2)
next
  obtain r st1 where mb: "month_body sh WORKDIR MM st = (r, st1)"
    by (cases "month_body sh WORKDIR MM st") auto
  show "case month_body sh WORKDIR MM st of
        (None, st') \<Rightarrow> for_months sh WORKDIR (MM # MMs) st = for_months sh WORKDIR MMs st'
      | (Some status, st') \<Rightarrow>
          for_months sh WORKDIR (MM # MMs) st = (Some status, st') \<and> status = 1 \<and>
          \<not> is_file sh (INVOICE WORKDIR MM) (sys st) \<and>
          \<not> fst (append_to sh (FAILFILE WORKDIR MM) (sys st))"
  proof (cases r)
    case None
    with mb show ?thesis by simp
  next
    case (Some status)
    from month_body_exit[OF mb[unfolded Some]] mb Some show ?thesis by simp
  qed
next
  show "case mkdir_p sh (FAILED_DIR WORKDIR) (sys st) of
        (False, v) \<Rightarrow> workflow sh WORKDIR st = (1, st\<lparr>sys := v\<rparr>)
      | (True, v) \<Rightarrow>
          (case for_months sh WORKDIR MONTHS (st\<lparr>sys := v\<rparr>) of
             (Some status, st') \<Rightarrow> workflow sh WORKDIR st = (status, st')
           | (None, st') \<Rightarrow>
               workflow sh WORKDIR st =
                 (0, st'\<lparr>stdout := stdout st' @ [AllMonthsProcessed]\<rparr>))"
    by (simp add: workflow_def say_def split: prod.splits bool.splits option.splits)
next
  show "fst (mkdir_p sh (FAILED_DIR WORKDIR) (sys st)) \<and>
      (\<forall>MM \<in> set MONTHS. \<forall>v. is_file sh (INVOICE WORKDIR MM) v \<or>
                                 fst (append_to sh (FAILFILE WORKDIR MM) v)) \<longrightarrow>
        fst (workflow sh WORKDIR st) = 0 \<and>
        processing (echoed st (snd (workflow sh WORKDIR st))) = MONTHS \<and>
        last (stdout (snd (workflow sh WORKDIR st))) = AllMonthsProcessed"
  proof (intro impI, elim conjE)
    assume mk: "fst (mkdir_p sh (FAILED_DIR WORKDIR) (sys st))"
      and ok: "\<forall>MM \<in> set MONTHS. \<forall>v. is_file sh (INVOICE WORKDIR MM) v \<or>
                                       fst (append_to sh (FAILFILE WORKDIR MM) v)"
    obtain v where m: "mkdir_p sh (FAILED_DIR WORKDIR) (sys st) = (True, v)"
      using mk by (cases "mkdir_p sh (FAILED_DIR WORKDIR) (sys st)") auto
    from for_months_all[OF ok, of "st\<lparr>sys := v\<rparr>"] obtain st' es where
      f: "for_months sh WORKDIR MONTHS (st\<lparr>sys := v\<rparr>) = (None, st')"
        "stdout st' = stdout st @ es" "processing es = MONTHS"
      by auto
    have w: "workflow sh WORKDIR st = (0, st'\<lparr>stdout := stdout st @ es @ [AllMonthsProcessed]\<rparr>)"
      using m f(1,2) by (simp add: workflow_def say_def)
    show "fst (workflow sh WORKDIR st) = 0 \<and>
        processing (echoed st (snd (workflow sh WORKDIR st))) = MONTHS \<and>
        last (stdout (snd (workflow sh WORKDIR st))) = AllMonthsProcessed"
      using f(3) by (simp add: w)
  qed
qed

text \<open>
  The theorem at work on the machine where every command fails and every write succeeds:
  the first part of September exhausts its two attempts, the log of September holds the
  output of both, the second part is not run, and the loop goes on with August; the whole
  script announces its nine months and exits with status 0. On the machine whose logs
  cannot be written, what is appended is lost.
\<close>

theorem retry_budget_then_next_month_witness:
  "is_file failing_shell (INVOICE ''/srv/qlik'' ''09'') (sys script0) \<and>
   (\<forall>v. fst (append_to failing_shell (FAILFILE ''/srv/qlik'' ''09'') v)) \<and>
   (\<forall>v. \<not> fst (append_to readonly_shell (FAILFILE ''/srv/qlik'' ''09'') v)) \<and>
   logs (appends failing_shell (FAILFILE ''/srv/qlik'' ''09'')
           [AttemptOutputBegin 1, AttemptOutput ''boom'', AttemptOutputEnd 1] script0)
        (FAILFILE ''/srv/qlik'' ''09'') =
     [AttemptOutputBegin 1, AttemptOutput ''boom'', AttemptOutputEnd 1] \<and>
   logs (appends readonly_shell (FAILFILE ''/srv/qlik'' ''09'')
           [AttemptOutputBegin 1, AttemptOutput ''boom'', AttemptOutputEnd 1] script0) =
     logs script0 \<and>
   FAILFILE ''/srv/qlik'' ''08'' \<noteq> FAILFILE ''/srv/qlik'' ''09'' \<and>
   logs (appends failing_shell (FAILFILE ''/srv/qlik'' ''09'')
           [AttemptOutputBegin 1, AttemptOutput ''boom'', AttemptOutputEnd 1] script0)
        (FAILFILE ''/srv/qlik'' ''08'') = [] \<and>
   run_cmd_with_retry failing_shell (PART1 ''/srv/qlik'' ''09'') (FAILFILE ''/srv/qlik'' ''09'')
       (say (Processing ''09'') script0) =
     (1, \<lparr>sys = (),
          logs = (\<lambda>file. [])(FAILFILE ''/srv/qlik'' ''09'' :=
                   [AttemptOutputBegin 1, AttemptOutput ''boom'', AttemptOutputEnd 1,
                    AttemptOutputBegin 2, AttemptOutput ''boom'', AttemptOutputEnd 2]),
          stdout = [Processing ''09'', Attempt 1 (PART1 ''/srv/qlik'' ''09''), CommandFailed 1,
                    Attempt 2 (PART1 ''/srv/qlik'' ''09''), CommandFailed 2]\<rparr>) \<and>
   month_body failing_shell ''/srv/qlik'' ''09'' script0 =
     (None,
      \<lparr>sys = (),
       logs = (\<lambda>file. [])(FAILFILE ''/srv/qlik'' ''09'' :=
                [AttemptOutputBegin 1, AttemptOutput ''boom'', AttemptOutputEnd 1,
                 AttemptOutputBegin 2, AttemptOutput ''boom'', AttemptOutputEnd 2]),
       stdout = [Processing ''09'', Attempt 1 (PART1 ''/srv/qlik'' ''09''), CommandFailed 1,
                 Attempt 2 (PART1 ''/srv/qlik'' ''09''), CommandFailed 2, Part1Failed ''09'']\<rparr>) \<and>
   fst (run_cmd_with_retry failing_shell (PART1 ''/srv/qlik'' ''09'') (FAILFILE ''/srv/qlik'' ''09'')
          (say (Processing ''09'') script0)) \<noteq> 0 \<and>
   logs (snd (month_body failing_shell ''/srv/qlik'' ''09'' script0)) (FAILFILE ''/srv/qlik'' ''09'') =
     [AttemptOutputBegin 1, AttemptOutput ''boom'', AttemptOutputEnd 1,
      AttemptOutputBegin 2, AttemptOutput ''boom'', AttemptOutputEnd 2] \<and>
   logs (snd (run_cmd_with_retry failing_shell (PART1 ''/srv/qlik'' ''09'')
                (FAILFILE ''/srv/qlik'' ''09'') (say (Processing ''09'') script0)))
        (FAILFILE ''/srv/qlik'' ''09'') =
     [AttemptOutputBegin 1, AttemptOutput ''boom'', AttemptOutputEnd 1,
      AttemptOutputBegin 2, AttemptOutput ''boom'', AttemptOutputEnd 2] \<and>
   for_months failing_shell ''/srv/qlik'' [''09'', ''08''] script0 =
     for_months failing_shell ''/srv/qlik'' [''08'']
       \<lparr>sys = (),
        logs = (\<lambda>file. [])(FAILFILE ''/srv/qlik'' ''09'' :=
                 [AttemptOutputBegin 1, AttemptOutput ''boom'', AttemptOutputEnd 1,
                  AttemptOutputBegin 2, AttemptOutput ''boom'', AttemptOutputEnd 2]),
        stdout = [Processing ''09'', Attempt 1 (PART1 ''/srv/qlik'' ''09''), CommandFailed 1,
                  Attempt 2 (PART1 ''/srv/qlik'' ''09''), CommandFailed 2, Part1Failed ''09'']\<rparr> \<and>
   fst (mkdir_p failing_shell (FAILED_DIR ''/srv/qlik'') (sys script0)) \<and>
   fst (workflow failing_shell ''/srv/qlik'' script0) = 0 \<and>
   processing (echoed script0 (snd (workflow failing_shell ''/srv/qlik'' script0))) = MONTHS \<and>
   last (stdout (snd (workflow failing_shell ''/srv/qlik'' script0))) = AllMonthsProcessed"
proof -
  let ?W = "''/srv/qlik''"
  let ?F = "FAILFILE ?W ''09''"
  let ?P1 = "PART1 ?W ''09''"
  let ?es = "[AttemptOutputBegin 1, AttemptOutput ''boom'', AttemptOutputEnd 1]"
  let ?st1 = "say (Processing ''09'') script0"
  let ?six = "[AttemptOutputBegin 1, AttemptOutput ''boom'', AttemptOutputEnd 1,
               AttemptOutputBegin 2, AttemptOutput ''boom'', AttemptOutputEnd 2]"
  let ?after = "\<lparr>sys = (), logs = (\<lambda>file. [])(?F := ?six),
                 stdout = [Processing ''09'', Attempt 1 ?P1, CommandFailed 1,
                           Attempt 2 ?P1, CommandFailed 2]\<rparr>"
  have h1: "is_file failing_shell (INVOICE ?W ''09'') (sys script0)"
    by (simp add: failing_shell_def)
  have h2: "\<forall>v. fst (append_to failing_shell ?F v)"
    by (simp add: failing_shell_def)
  have h3: "\<forall>v. \<not> fst (append_to readonly_shell ?F v)"
    by (simp add: readonly_shell_def failing_shell_def)
  have h4: "FAILFILE ?W ''08'' \<noteq> ?F"
    by (simp add: FAILFILE_def)
  have h5: "fst (mkdir_p failing_shell (FAILED_DIR ?W) (sys script0))"
    by (simp add: failing_shell_def)
  have h6: "\<forall>MM \<in> set MONTHS. \<forall>v. is_file failing_shell (INVOICE ?W MM) v \<or>
                                    fst (append_to failing_shell (FAILFILE ?W MM) v)"
    by (simp add: failing_shell_def)
  note t = retry_budget_then_next_month[where WORKDIR = ?W and MM = "''09''" and MMs = "[''08'']"
      and cmd = ?P1 and failfile = ?F and es = ?es]
  note tf = t[where sh = failing_shell and st = script0]
  note tr = t[where sh = readonly_shell and st = script0]
  note t1 = t[where sh = failing_shell and st = ?st1]
  have b1: "logs (appends failing_shell ?F ?es script0) ?F = ?es"
    using tf[THEN conjunct2, THEN conjunct2, THEN conjunct1, THEN mp, OF h2]
    by (simp add: script0_def)
  have b2: "logs (appends readonly_shell ?F ?es script0) = logs script0"
    using tr[THEN conjunct2, THEN conjunct2, THEN conjunct2, THEN conjunct1, THEN mp, OF h3] .
  have b3: "logs (appends failing_shell ?F ?es script0) (FAILFILE ?W ''08'') = []"
    using tf[THEN conjunct2, THEN conjunct2, THEN conjunct2, THEN conjunct2, THEN conjunct1, rule_format, OF h4]
    by (simp add: script0_def)
  have run: "run_cmd_with_retry failing_shell ?P1 ?F ?st1 = (1, ?after)"
    using t1[THEN conjunct1]
    by (simp add: failing_shell_def Let_def appends.simps say_def script0_def)
  have nz: "fst (run_cmd_with_retry failing_shell ?P1 ?F ?st1) \<noteq> 0"
    by (simp add: run)
  have lr: "logs (snd (run_cmd_with_retry failing_shell ?P1 ?F ?st1)) ?F = ?six"
    using t1[THEN conjunct2, THEN conjunct2, THEN conjunct2, THEN conjunct2, THEN conjunct2, THEN conjunct2, THEN conjunct1, THEN mp, OF conjI[OF h2 nz]]
    by (simp add: failing_shell_def say_def script0_def)
  have mb: "month_body failing_shell ?W ''09'' script0 =
              (None, ?after\<lparr>stdout := stdout ?after @ [Part1Failed ''09'']\<rparr>)"
    using tf[THEN conjunct2, THEN conjunct2, THEN conjunct2, THEN conjunct2, THEN conjunct2, THEN conjunct2, THEN conjunct2, THEN conjunct1, THEN mp, OF h1, unfolded run]
    by (simp add: say_def)
  have lm: "logs (snd (month_body failing_shell ?W ''09'' script0)) ?F = ?six"
    using tf[THEN conjunct2, THEN conjunct2, THEN conjunct2, THEN conjunct2, THEN conjunct2, THEN conjunct2, THEN conjunct2, THEN conjunct2, THEN conjunct1, THEN mp, OF conjI[OF h1 conjI[OF h2 nz]]]
    by (simp add: failing_shell_def script0_def)
  have loop: "for_months failing_shell ?W [''09'', ''08''] script0 =
              for_months failing_shell ?W [''08'']
                (?after\<lparr>stdout := stdout ?after @ [Part1Failed ''09'']\<rparr>)"
    using tf[THEN conjunct2, THEN conjunct2, THEN conjunct2, THEN conjunct2, THEN conjunct2, THEN conjunct2, THEN conjunct2, THEN conjunct2, THEN conjunct2, THEN conjunct2, THEN conjunct1]
    by (simp add: mb)
  note wf = tf[THEN conjunct2, THEN conjunct2, THEN conjunct2, THEN conjunct2, THEN conjunct2, THEN conjunct2, THEN conjunct2, THEN conjunct2, THEN conjunct2, THEN conjunct2, THEN conjunct2, THEN conjunct2, THEN mp, OF conjI[OF h5 h6]]
  show ?thesis
    using h1 h2 h3 b1 b2 h4 b3 run mb nz lm lr loop h5 wf by simp
qed

text \<open>
  C5 as the spec states it fails where the failure log cannot be written: on this machine
  every command fails and every write to a log fails. The first part of September exhausts
  its two attempts and \<open>run_cmd_with_retry\<close> returns 1, the month echoes that part 1 failed
  and ends, and the log of September holds nothing: the output of neither attempt has been
  appended to it.
\<close>

theorem failed_attempts_lost_without_log:
  "is_file readonly_shell (INVOICE ''/srv/qlik'' ''09'') (sys script0) \<and>
   run_cmd_with_retry readonly_shell (PART1 ''/srv/qlik'' ''09'') (FAILFILE ''/srv/qlik'' ''09'')
       (say (Processing ''09'') script0) =
     (1, \<lparr>sys = (), logs = (\<lambda>file. []),
          stdout = [Processing ''09'', Attempt 1 (PART1 ''/srv/qlik'' ''09''), CommandFailed 1,
                    Attempt 2 (PART1 ''/srv/qlik'' ''09''), CommandFailed 2]\<rparr>) \<and>
   month_body readonly_shell ''/srv/qlik'' ''09'' script0 =
     (None,
      \<lparr>sys = (), logs = (\<lambda>file. []),
       stdout = [Processing ''09'', Attempt 1 (PART1 ''/srv/qlik'' ''09''), CommandFailed 1,
                 Attempt 2 (PART1 ''/srv/qlik'' ''09''), CommandFailed 2, Part1Failed ''09'']\<rparr>) \<and>
   logs (snd (month_body readonly_shell ''/srv/qlik'' ''09'' script0))
        (FAILFILE ''/srv/qlik'' ''09'') = []"
  by (simp add: month_body_def run_cmd_with_retry_def retry_loop.simps append_log_def say_def
        readonly_shell_def failing_shell_def script0_def max_attempts_def Let_def)

end
